theory Spec2Isabelle
  imports Main "HOL-Library.Word" "HOL-Library.Monad_Syntax"
begin

unbundle bit_operations_syntax

section \<open>Nanopond: data model\<close>

text \<open>
  The model follows \<^verbatim>\<open>nanopond.c\<close> on a 64-bit machine: \<^verbatim>\<open>uintptr_t\<close> and
  \<^verbatim>\<open>uint64_t\<close> are \<open>64 word\<close>, so every addition and subtraction wraps as in C.
  An access of an array outside its bounds and a shift by the word width or more are
  undefined in C; the model returns \<open>None\<close> there.
\<close>

subsection \<open>Tunable parameters and derived constants\<close>

definition MUTATION_RATE :: "64 word" where "MUTATION_RATE = 5000"
definition INFLOW_RATE_BASE :: "64 word" where "INFLOW_RATE_BASE = 600"
definition INFLOW_RATE_VARIATION :: "64 word" where "INFLOW_RATE_VARIATION = 1000"
definition POND_SIZE_X :: "64 word" where "POND_SIZE_X = 800"
definition POND_SIZE_Y :: "64 word" where "POND_SIZE_Y = 600"
definition POND_DEPTH :: "64 word" where "POND_DEPTH = 1024"
definition FAILED_KILL_PENALTY :: "64 word" where "FAILED_KILL_PENALTY = 3"

text \<open>\<^verbatim>\<open>sizeof(uintptr_t)\<close> is 8.\<close>

definition POND_DEPTH_SYSWORDS :: "64 word" where
  "POND_DEPTH_SYSWORDS = POND_DEPTH div (8 * 2)"

definition SYSWORD_BITS :: "64 word" where "SYSWORD_BITS = 8 * 8"

definition N_LEFT :: "64 word" where "N_LEFT = 0"
definition N_RIGHT :: "64 word" where "N_RIGHT = 1"
definition N_UP :: "64 word" where "N_UP = 2"
definition N_DOWN :: "64 word" where "N_DOWN = 3"

definition EXEC_START_WORD :: "64 word" where "EXEC_START_WORD = 0"
definition EXEC_START_BIT :: "64 word" where "EXEC_START_BIT = 4"

definition BITS_IN_FOURBIT_WORD :: "64 word list" where
  "BITS_IN_FOURBIT_WORD = [0,1,1,2,1,2,2,3,1,2,2,3,2,3,3,4]"

lemmas pond_consts =
  MUTATION_RATE_def INFLOW_RATE_BASE_def INFLOW_RATE_VARIATION_def POND_SIZE_X_def
  POND_SIZE_Y_def POND_DEPTH_def FAILED_KILL_PENALTY_def POND_DEPTH_SYSWORDS_def
  SYSWORD_BITS_def N_LEFT_def N_RIGHT_def N_UP_def N_DOWN_def EXEC_START_WORD_def
  EXEC_START_BIT_def

subsection \<open>Checked array accesses and shifts\<close>

definition rd :: "'a list \<Rightarrow> 64 word \<Rightarrow> 'a option" where
  "rd a i = (if unat i < length a then Some (a ! unat i) else None)"

definition wr :: "'a list \<Rightarrow> 64 word \<Rightarrow> 'a \<Rightarrow> 'a list option" where
  "wr a i v = (if unat i < length a then Some (a[unat i := v]) else None)"

definition shr :: "64 word \<Rightarrow> 64 word \<Rightarrow> 64 word option" where
  "shr w n = (if n < 64 then Some (drop_bit (unat n) w) else None)"

definition shl :: "64 word \<Rightarrow> 64 word \<Rightarrow> 64 word option" where
  "shl w n = (if n < 64 then Some (push_bit (unat n) w) else None)"

text \<open>\<^verbatim>\<open>(w >> s) & 0xf\<close>: the codon of word \<open>w\<close> at shift \<open>s\<close>.\<close>

definition get_codon :: "64 word \<Rightarrow> 64 word \<Rightarrow> 64 word option" where
  "get_codon w s = do { t \<leftarrow> shr w s; Some (t AND 0xf) }"

text \<open>\<^verbatim>\<open>w &= ~(0xf << s); w |= v << s\<close>.\<close>

definition set_codon :: "64 word \<Rightarrow> 64 word \<Rightarrow> 64 word \<Rightarrow> 64 word option" where
  "set_codon w s v = do { m \<leftarrow> shl 0xf s; t \<leftarrow> shl v s; Some ((w AND NOT m) OR t) }"

subsection \<open>The random number generator\<close>

type_synonym prng = "64 word \<times> 64 word"

definition getRandom :: "prng \<Rightarrow> 64 word \<times> prng" where
  "getRandom st =
     (let x = fst st; y = snd st;
          x = x XOR push_bit 23 x;
          z = x XOR y XOR drop_bit 17 x XOR drop_bit 26 y
      in (z + y, (y, z)))"

subsection \<open>Cells and the pond\<close>

record Cell =
  ID :: "64 word"
  parentID :: "64 word"
  lineage :: "64 word"
  generation :: "64 word"
  energy :: "64 word"
  genome :: "64 word list"

text \<open>A pointer to a cell of the pond is the pair of its indices.\<close>

type_synonym cellptr = "64 word \<times> 64 word"

definition getNeighbor :: "cellptr \<Rightarrow> 64 word \<Rightarrow> cellptr" where
  "getNeighbor p dir =
     (let x = fst p; y = snd p in
      if dir = N_LEFT then (if x \<noteq> 0 then (x - 1, y) else (POND_SIZE_X - 1, y))
      else if dir = N_RIGHT then (if x < POND_SIZE_X - 1 then (x + 1, y) else (0, y))
      else if dir = N_UP then (if y \<noteq> 0 then (x, y - 1) else (x, POND_SIZE_Y - 1))
      else if dir = N_DOWN then (if y < POND_SIZE_Y - 1 then (x, y + 1) else (x, 0))
      else (x, y))"

definition accessAllowed :: "Cell \<Rightarrow> 64 word \<Rightarrow> 32 word \<Rightarrow> prng \<Rightarrow> (bool \<times> prng) option" where
  "accessAllowed c2 c1guess sense st =
     (let (r, st') = getRandom st in
      do {
        g0 \<leftarrow> rd (genome c2) 0;
        b \<leftarrow> rd BITS_IN_FOURBIT_WORD ((g0 AND 0xf) XOR (c1guess AND 0xf));
        Some (if sense \<noteq> 0
              then ((r AND 0xf) \<ge> b \<or> parentID c2 = 0)
              else ((r AND 0xf) \<le> b \<or> parentID c2 = 0), st')
      })"

text \<open>The number of bits set in a word, for comparison with the table.\<close>

definition popcount :: "64 word \<Rightarrow> nat" where
  "popcount w = length (filter (bit w) [0..<64])"

subsection \<open>Global variables and the local variables of \<^verbatim>\<open>run\<close>\<close>

text \<open>
  One record holds the globals (\<open>prngState\<close>, \<open>pond\<close>, \<open>cellIdCounter\<close> and the
  fields of \<open>statCounters\<close>) and the locals of \<^verbatim>\<open>run\<close> that live across the
  iterations of the execution loop. \<open>pptr\<close> is the pair \<open>(x, y)\<close> of the cell being
  executed. The two execution counters are doubles that start at 0 and only ever receive
  \<open>+= 1.0\<close>: they hold whole numbers, modelled as integers, and \<open>dbl_succ\<close> is
  that addition, exact below \<open>2 ^ 53\<close> and without effect from there on
  (\<open>2 ^ 53 + 1\<close> is not a double and rounds back to \<open>2 ^ 53\<close>).
\<close>

definition dbl_succ :: "int \<Rightarrow> int" where
  "dbl_succ n = (if n < 2 ^ 53 then n + 1 else n)"

record sim =
  prngState :: prng
  pond :: "cellptr \<Rightarrow> Cell"
  cellIdCounter :: "64 word"
  instructionExecutions :: "int list"
  cellExecutions :: int
  viableCellsReplaced :: "64 word"
  viableCellsKilled :: "64 word"
  viableCellShares :: "64 word"
  pptr :: cellptr
  outputBuf :: "64 word list"
  currentWord :: "64 word"
  wordPtr :: "64 word"
  shiftPtr :: "64 word"
  ptr_wordPtr :: "64 word"
  ptr_shiftPtr :: "64 word"
  reg :: "64 word"
  facing :: "64 word"
  loopStack_wordPtr :: "64 word list"
  loopStack_shiftPtr :: "64 word list"
  loopStackPtr :: "64 word"
  falseLoopDepth :: "64 word"
  stop :: bool

definition set_energy :: "cellptr \<Rightarrow> 64 word \<Rightarrow> sim \<Rightarrow> sim" where
  "set_energy p e s = s\<lparr>pond := (pond s)(p := (pond s p)\<lparr>energy := e\<rparr>)\<rparr>"

definition set_genome :: "cellptr \<Rightarrow> 64 word list \<Rightarrow> sim \<Rightarrow> sim" where
  "set_genome p g s = s\<lparr>pond := (pond s)(p := (pond s p)\<lparr>genome := g\<rparr>)\<rparr>"

section \<open>The virtual machine\<close>

subsection \<open>Fetch and mutation\<close>

definition fetch :: "sim \<Rightarrow> 64 word option" where
  "fetch s = get_codon (currentWord s) (shiftPtr s)"

definition mutate :: "64 word \<Rightarrow> sim \<Rightarrow> 64 word \<times> sim" where
  "mutate inst s =
     (let (r, st1) = getRandom (prngState s) in
      if r AND 0xffffffff < MUTATION_RATE then
        (let (tmp, st2) = getRandom st1 in
         if tmp AND 0x80 \<noteq> 0 then (tmp AND 0xf, s\<lparr>prngState := st2\<rparr>)
         else (inst, s\<lparr>prngState := st2, reg := tmp AND 0xf\<rparr>))
      else (inst, s\<lparr>prngState := st1\<rparr>))"

definition dec_energy :: "sim \<Rightarrow> sim" where
  "dec_energy s = set_energy (pptr s) (energy (pond s (pptr s)) - 1) s"

subsection \<open>The instructions\<close>

definition op_ZERO :: "sim \<Rightarrow> sim option" where
  "op_ZERO s = Some (s\<lparr>reg := 0, ptr_wordPtr := 0, ptr_shiftPtr := 0, facing := 0\<rparr>)"

definition op_FWD :: "sim \<Rightarrow> sim option" where
  "op_FWD s =
     (let sp = ptr_shiftPtr s + 4 in
      if sp \<ge> SYSWORD_BITS then
        (let wp = ptr_wordPtr s + 1 in
         Some (s\<lparr>ptr_wordPtr := (if wp \<ge> POND_DEPTH_SYSWORDS then 0 else wp),
                 ptr_shiftPtr := 0\<rparr>))
      else Some (s\<lparr>ptr_shiftPtr := sp\<rparr>))"

definition op_BACK :: "sim \<Rightarrow> sim option" where
  "op_BACK s =
     (if ptr_shiftPtr s \<noteq> 0 then Some (s\<lparr>ptr_shiftPtr := ptr_shiftPtr s - 4\<rparr>)
      else Some (s\<lparr>ptr_wordPtr := (if ptr_wordPtr s \<noteq> 0 then ptr_wordPtr s - 1
                                     else POND_DEPTH_SYSWORDS - 1),
                   ptr_shiftPtr := SYSWORD_BITS - 4\<rparr>))"

definition op_INC :: "sim \<Rightarrow> sim option" where
  "op_INC s = Some (s\<lparr>reg := (reg s + 1) AND 0xf\<rparr>)"

definition op_DEC :: "sim \<Rightarrow> sim option" where
  "op_DEC s = Some (s\<lparr>reg := (reg s - 1) AND 0xf\<rparr>)"

definition op_READG :: "sim \<Rightarrow> sim option" where
  "op_READG s = do {
     w \<leftarrow> rd (genome (pond s (pptr s))) (ptr_wordPtr s);
     c \<leftarrow> get_codon w (ptr_shiftPtr s);
     Some (s\<lparr>reg := c\<rparr>)
   }"

definition op_WRITEG :: "sim \<Rightarrow> sim option" where
  "op_WRITEG s = do {
     w \<leftarrow> rd (genome (pond s (pptr s))) (ptr_wordPtr s);
     w' \<leftarrow> set_codon w (ptr_shiftPtr s) (reg s);
     g \<leftarrow> wr (genome (pond s (pptr s))) (ptr_wordPtr s) w';
     cw \<leftarrow> rd g (wordPtr s);
     Some ((set_genome (pptr s) g s)\<lparr>currentWord := cw\<rparr>)
   }"

definition op_READB :: "sim \<Rightarrow> sim option" where
  "op_READB s = do {
     w \<leftarrow> rd (outputBuf s) (ptr_wordPtr s);
     c \<leftarrow> get_codon w (ptr_shiftPtr s);
     Some (s\<lparr>reg := c\<rparr>)
   }"

definition op_WRITEB :: "sim \<Rightarrow> sim option" where
  "op_WRITEB s = do {
     w \<leftarrow> rd (outputBuf s) (ptr_wordPtr s);
     w' \<leftarrow> set_codon w (ptr_shiftPtr s) (reg s);
     b \<leftarrow> wr (outputBuf s) (ptr_wordPtr s) w';
     Some (s\<lparr>outputBuf := b\<rparr>)
   }"

definition op_LOOP :: "sim \<Rightarrow> sim option" where
  "op_LOOP s =
     (if reg s \<noteq> 0 then
        (if loopStackPtr s \<ge> POND_DEPTH then Some (s\<lparr>stop := True\<rparr>)
         else do {
           lw \<leftarrow> wr (loopStack_wordPtr s) (loopStackPtr s) (wordPtr s);
           ls \<leftarrow> wr (loopStack_shiftPtr s) (loopStackPtr s) (shiftPtr s);
           Some (s\<lparr>loopStack_wordPtr := lw, loopStack_shiftPtr := ls,
                   loopStackPtr := loopStackPtr s + 1\<rparr>)
         })
      else Some (s\<lparr>falseLoopDepth := 1\<rparr>))"

text \<open>
  \<open>op_REP\<close> also says whether the C code leaves the iteration by \<^verbatim>\<open>continue\<close>,
  which skips the advance of the execution cursor.
\<close>

definition op_REP :: "sim \<Rightarrow> (bool \<times> sim) option" where
  "op_REP s =
     (if loopStackPtr s \<noteq> 0 then
        (let s1 = s\<lparr>loopStackPtr := loopStackPtr s - 1\<rparr> in
         if reg s1 \<noteq> 0 then do {
           w \<leftarrow> rd (loopStack_wordPtr s1) (loopStackPtr s1);
           sh \<leftarrow> rd (loopStack_shiftPtr s1) (loopStackPtr s1);
           cw \<leftarrow> rd (genome (pond s1 (pptr s1))) w;
           Some (True, s1\<lparr>wordPtr := w, shiftPtr := sh, currentWord := cw\<rparr>)
         } else Some (False, s1))
      else Some (False, s))"

definition op_TURN :: "sim \<Rightarrow> sim option" where
  "op_TURN s = Some (s\<lparr>facing := reg s AND 3\<rparr>)"

text \<open>
  The move of the execution cursor by one codon, as \<open>op_XCHG\<close> and the end of each
  iteration do it: \<^verbatim>\<open>if ((shiftPtr += 4) >= SYSWORD_BITS) { ... }\<close>.
\<close>

definition next_cursor :: "64 word \<times> 64 word \<Rightarrow> 64 word \<times> 64 word" where
  "next_cursor c =
     (let wp = fst c; sp = snd c + 4 in
      if sp \<ge> SYSWORD_BITS then
        (let wp = wp + 1 in
         if wp \<ge> POND_DEPTH_SYSWORDS then (EXEC_START_WORD, EXEC_START_BIT) else (wp, 0))
      else (wp, sp))"

definition op_XCHG :: "sim \<Rightarrow> sim option" where
  "op_XCHG s =
     (let (wp, sp) = next_cursor (wordPtr s, shiftPtr s);
          s1 = s\<lparr>wordPtr := wp, shiftPtr := sp\<rparr>;
          tmp = reg s1
      in do {
        w \<leftarrow> rd (genome (pond s1 (pptr s1))) (wordPtr s1);
        c \<leftarrow> get_codon w (shiftPtr s1);
        w' \<leftarrow> set_codon w (shiftPtr s1) tmp;
        g \<leftarrow> wr (genome (pond s1 (pptr s1))) (wordPtr s1) w';
        cw \<leftarrow> rd g (wordPtr s1);
        Some ((set_genome (pptr s1) g (s1\<lparr>reg := c\<rparr>))\<lparr>currentWord := cw\<rparr>)
      })"

definition op_KILL :: "sim \<Rightarrow> sim option" where
  "op_KILL s =
     (let tmpptr = getNeighbor (pptr s) (facing s) in
      do {
        (ok, st) \<leftarrow> accessAllowed (pond s tmpptr) (reg s) 0 (prngState s);
        let s1 = s\<lparr>prngState := st\<rparr>;
        if ok then
          (let s2 = (if generation (pond s1 tmpptr) > 2
                     then s1\<lparr>viableCellsKilled := viableCellsKilled s1 + 1\<rparr> else s1)
           in do {
             g0 \<leftarrow> wr (genome (pond s2 tmpptr)) 0 (NOT 0);
             g1 \<leftarrow> wr g0 1 (NOT 0);
             Some (s2\<lparr>pond := (pond s2)(tmpptr := (pond s2 tmpptr)
                       \<lparr>ID := cellIdCounter s2, parentID := 0, lineage := cellIdCounter s2,
                        generation := 0, genome := g1\<rparr>),
                     cellIdCounter := cellIdCounter s2 + 1\<rparr>)
           })
        else if generation (pond s1 tmpptr) > 2 then
          (let tmp = energy (pond s1 (pptr s1)) div FAILED_KILL_PENALTY in
           if energy (pond s1 (pptr s1)) > tmp
           then Some (set_energy (pptr s1) (energy (pond s1 (pptr s1)) - tmp) s1)
           else Some (set_energy (pptr s1) 0 s1))
        else Some s1
      })"

definition op_SHARE :: "sim \<Rightarrow> sim option" where
  "op_SHARE s =
     (let tmpptr = getNeighbor (pptr s) (facing s) in
      do {
        (ok, st) \<leftarrow> accessAllowed (pond s tmpptr) (reg s) 1 (prngState s);
        let s1 = s\<lparr>prngState := st\<rparr>;
        if ok then
          (let s2 = (if generation (pond s1 tmpptr) > 2
                     then s1\<lparr>viableCellShares := viableCellShares s1 + 1\<rparr> else s1);
               tmp = energy (pond s2 (pptr s2)) + energy (pond s2 tmpptr);
               s3 = set_energy tmpptr (tmp div 2) s2;
               s4 = set_energy (pptr s3) (tmp - energy (pond s3 tmpptr)) s3
           in Some s4)
        else Some s1
      })"

definition op_STOP :: "sim \<Rightarrow> sim option" where
  "op_STOP s = Some (s\<lparr>stop := True\<rparr>)"

subsection \<open>One iteration of the execution loop\<close>

text \<open>The \<^verbatim>\<open>switch\<close>; the flag is true when the iteration ends by \<^verbatim>\<open>continue\<close>.\<close>

definition dispatch :: "64 word \<Rightarrow> sim \<Rightarrow> (bool \<times> sim) option" where
  "dispatch inst s =
     (if inst = 0x0 then map_option (Pair False) (op_ZERO s)
      else if inst = 0x1 then map_option (Pair False) (op_FWD s)
      else if inst = 0x2 then map_option (Pair False) (op_BACK s)
      else if inst = 0x3 then map_option (Pair False) (op_INC s)
      else if inst = 0x4 then map_option (Pair False) (op_DEC s)
      else if inst = 0x5 then map_option (Pair False) (op_READG s)
      else if inst = 0x6 then map_option (Pair False) (op_WRITEG s)
      else if inst = 0x7 then map_option (Pair False) (op_READB s)
      else if inst = 0x8 then map_option (Pair False) (op_WRITEB s)
      else if inst = 0x9 then map_option (Pair False) (op_LOOP s)
      else if inst = 0xa then op_REP s
      else if inst = 0xb then map_option (Pair False) (op_TURN s)
      else if inst = 0xc then map_option (Pair False) (op_XCHG s)
      else if inst = 0xd then map_option (Pair False) (op_KILL s)
      else if inst = 0xe then map_option (Pair False) (op_SHARE s)
      else if inst = 0xf then map_option (Pair False) (op_STOP s)
      else Some (False, s))"

text \<open>The cursor advance that closes an iteration.\<close>

definition advance :: "sim \<Rightarrow> sim option" where
  "advance s =
     (let (wp, sp) = next_cursor (wordPtr s, shiftPtr s);
          s1 = s\<lparr>wordPtr := wp, shiftPtr := sp\<rparr>
      in if shiftPtr s + 4 \<ge> SYSWORD_BITS
         then do { cw \<leftarrow> rd (genome (pond s1 (pptr s1))) (wordPtr s1);
                   Some (s1\<lparr>currentWord := cw\<rparr>) }
         else Some s1)"

text \<open>What follows \<^verbatim>\<open>--pptr->energy\<close> in an iteration, for the instruction \<open>inst\<close>.\<close>

definition exec_inst :: "64 word \<Rightarrow> sim \<Rightarrow> sim option" where
  "exec_inst inst s =
     (if falseLoopDepth s \<noteq> 0 then
        advance (if inst = 0x9 then s\<lparr>falseLoopDepth := falseLoopDepth s + 1\<rparr>
                 else if inst = 0xa then s\<lparr>falseLoopDepth := falseLoopDepth s - 1\<rparr>
                 else s)
      else do {
        n \<leftarrow> rd (instructionExecutions s) inst;
        ie \<leftarrow> wr (instructionExecutions s) inst (dbl_succ n);
        (cont, s') \<leftarrow> dispatch inst (s\<lparr>instructionExecutions := ie\<rparr>);
        if cont then Some s' else advance s'
      })"

definition step :: "sim \<Rightarrow> sim option" where
  "step s = do {
     inst \<leftarrow> fetch s;
     let (inst, s1) = mutate inst s;
     exec_inst inst (dec_energy s1)
   }"

subsection \<open>The execution loop\<close>

text \<open>
  The loop \<^verbatim>\<open>while ((pptr->energy)&&(!stop))\<close> ends because every iteration takes
  one unit of energy from the pond and no instruction adds any: the sum of all energies
  is the measure. The lemmas up to \<open>step_decreases\<close> establish that.
\<close>

definition emap :: "sim \<Rightarrow> cellptr \<Rightarrow> 64 word" where
  "emap s = (\<lambda>p. energy (pond s p))"

definition pond_energy :: "sim \<Rightarrow> nat" where
  "pond_energy s = (\<Sum>p\<in>UNIV. unat (emap s p))"

lemma sum_unat_upd:
  fixes f :: "cellptr \<Rightarrow> 64 word"
  shows "(\<Sum>x\<in>UNIV. unat ((f(p := v)) x)) + unat (f p) = (\<Sum>x\<in>UNIV. unat (f x)) + unat v"
proof -
  have a: "(\<Sum>x\<in>UNIV. unat ((f(p := v)) x)) = unat v + (\<Sum>x\<in>UNIV - {p}. unat ((f(p := v)) x))"
    by (subst sum.remove[of _ p]) auto
  have b: "(\<Sum>x\<in>UNIV - {p}. unat ((f(p := v)) x)) = (\<Sum>x\<in>UNIV - {p}. unat (f x))"
    by (rule sum.cong) auto
  have c: "(\<Sum>x\<in>UNIV. unat (f x)) = unat (f p) + (\<Sum>x\<in>UNIV - {p}. unat (f x))"
    by (subst sum.remove[of _ p]) auto
  show ?thesis using a b c by simp
qed

lemma emap_set_energy: "emap (set_energy p e s) = (emap s)(p := e)"
  by (auto simp: emap_def set_energy_def)

lemma pond_energy_set_energy:
  "pond_energy (set_energy p e s) + unat (energy (pond s p)) = pond_energy s + unat e"
  using sum_unat_upd[of "emap s" p e]
  by (simp add: pond_energy_def emap_set_energy) (simp add: emap_def)

lemma half_split: "unat (t - t div 2) + unat (t div 2) = unat (t :: 64 word)"
proof -
  have "t div 2 \<le> t" by (simp add: word_le_nat_alt unat_div)
  then have "unat (t - t div 2) = unat t - unat (t div 2)" by (rule unat_sub)
  moreover have "unat (t div 2) \<le> unat t" by (simp add: unat_div)
  ultimately show ?thesis by simp
qed

lemma unat_add_le: "unat (a + b :: 64 word) \<le> unat a + unat b"
  by (simp only: unat_word_ariths) simp

lemma double_half_le: "unat ((a + a) - (a + a) div 2) \<le> unat (a :: 64 word)"
proof -
  define t where "t = a + a"
  have h: "unat (t - t div 2) + unat (t div 2) = unat t" by (rule half_split)
  have d: "unat (t div 2) = unat t div 2" by (simp add: unat_div)
  have le: "unat t \<le> unat a + unat a" unfolding t_def by (rule unat_add_le)
  have "unat (t - t div 2) \<le> unat a" using h d le by arith
  then show ?thesis by (simp only: t_def)
qed

lemma emap_mutate: "emap (snd (mutate i s)) = emap s"
  by (simp add: mutate_def emap_def Let_def split: prod.splits)

lemma pptr_mutate: "pptr (snd (mutate i s)) = pptr s"
  by (simp add: mutate_def Let_def split: prod.splits)

lemma stop_mutate: "stop (snd (mutate i s)) = stop s"
  by (simp add: mutate_def Let_def split: prod.splits)

lemma pond_energy_dec:
  assumes "energy (pond s (pptr s)) \<noteq> 0"
  shows "pond_energy (dec_energy s) + 1 = pond_energy s"
proof -
  let ?e = "energy (pond s (pptr s))"
  have "unat (?e - 1) + 1 = unat ?e"
    using assms by (simp add: unat_minus_one unat_gt_0 Suc_leI)
  then show ?thesis
    using pond_energy_set_energy[of "pptr s" "?e - 1" s] by (simp add: dec_energy_def)
qed

lemma pond_energy_cong: "emap s' = emap s \<Longrightarrow> pond_energy s' = pond_energy s"
  by (simp add: pond_energy_def)

lemma emap_set_genome: "emap (set_genome p g s) = emap s"
  by (auto simp: emap_def set_genome_def)

lemma advance_emap: "advance s = Some s' \<Longrightarrow> emap s' = emap s \<and> pptr s' = pptr s"
  by (auto simp: advance_def emap_def Let_def split: prod.splits if_splits bind_splits)


lemma op_simple_emap:
  "op_ZERO s = Some s' \<Longrightarrow> emap s' = emap s \<and> pptr s' = pptr s"
  "op_FWD s = Some s' \<Longrightarrow> emap s' = emap s \<and> pptr s' = pptr s"
  "op_BACK s = Some s' \<Longrightarrow> emap s' = emap s \<and> pptr s' = pptr s"
  "op_INC s = Some s' \<Longrightarrow> emap s' = emap s \<and> pptr s' = pptr s"
  "op_DEC s = Some s' \<Longrightarrow> emap s' = emap s \<and> pptr s' = pptr s"
  "op_TURN s = Some s' \<Longrightarrow> emap s' = emap s \<and> pptr s' = pptr s"
  "op_STOP s = Some s' \<Longrightarrow> emap s' = emap s \<and> pptr s' = pptr s"
  by (auto simp: op_ZERO_def op_FWD_def op_BACK_def op_INC_def op_DEC_def op_TURN_def op_STOP_def
      Let_def emap_def split: if_splits)

lemma op_READG_emap: "op_READG s = Some s' \<Longrightarrow> emap s' = emap s \<and> pptr s' = pptr s"
  by (auto simp: op_READG_def emap_def split: bind_splits)

lemma op_READB_emap: "op_READB s = Some s' \<Longrightarrow> emap s' = emap s \<and> pptr s' = pptr s"
  by (auto simp: op_READB_def emap_def split: bind_splits)

lemma op_WRITEB_emap: "op_WRITEB s = Some s' \<Longrightarrow> emap s' = emap s \<and> pptr s' = pptr s"
  by (auto simp: op_WRITEB_def emap_def split: bind_splits)

lemma op_WRITEG_emap: "op_WRITEG s = Some s' \<Longrightarrow> emap s' = emap s \<and> pptr s' = pptr s"
  by (auto simp: op_WRITEG_def emap_def set_genome_def split: bind_splits)

lemma op_LOOP_emap: "op_LOOP s = Some s' \<Longrightarrow> emap s' = emap s \<and> pptr s' = pptr s"
  by (auto simp: op_LOOP_def emap_def split: bind_splits if_splits)

lemma op_REP_emap: "op_REP s = Some (c, s') \<Longrightarrow> emap s' = emap s \<and> pptr s' = pptr s"
  by (auto simp: op_REP_def emap_def Let_def split: bind_splits if_splits)

lemma op_XCHG_emap: "op_XCHG s = Some s' \<Longrightarrow> emap s' = emap s \<and> pptr s' = pptr s"
  by (auto simp: op_XCHG_def emap_def set_genome_def Let_def split: bind_splits prod.splits)


definition nonincr :: "sim \<Rightarrow> sim \<Rightarrow> bool" where
  "nonincr s s' \<longleftrightarrow> pond_energy s' \<le> pond_energy s \<and> pptr s' = pptr s"

lemma nonincr_emap: "emap s' = emap s \<and> pptr s' = pptr s \<Longrightarrow> nonincr s s'"
  by (simp add: nonincr_def pond_energy_def)

lemma pond_energy_set_energy_le:
  "unat e \<le> unat (energy (pond s p)) \<Longrightarrow> pond_energy (set_energy p e s) \<le> pond_energy s"
  using pond_energy_set_energy[of p e s] by arith

lemma pond_energy_upd [simp]:
  "pond_energy (s\<lparr>prngState := st\<rparr>) = pond_energy s"
  "pond_energy (s\<lparr>viableCellsKilled := k\<rparr>) = pond_energy s"
  "pond_energy (s\<lparr>viableCellShares := k\<rparr>) = pond_energy s"
  "pond_energy (s\<lparr>instructionExecutions := ie\<rparr>) = pond_energy s"
  "pond_energy (s\<lparr>falseLoopDepth := d\<rparr>) = pond_energy s"
  by (simp_all add: pond_energy_def emap_def)

lemma op_KILL_nonincr:
  assumes "op_KILL s = Some s'"
  shows "nonincr s s'"
proof -
  let ?q = "getNeighbor (pptr s) (facing s)"
  obtain ok st where a: "accessAllowed (pond s ?q) (reg s) 0 (prngState s) = Some (ok, st)"
    using assms by (auto simp: op_KILL_def Let_def split: bind_splits)
  show ?thesis
  proof (cases ok)
    case True
    then have "emap s' = emap s \<and> pptr s' = pptr s"
      using assms a by (auto simp: op_KILL_def Let_def emap_def split: bind_splits if_splits)
    then show ?thesis by (rule nonincr_emap)
  next
    case False
    let ?s1 = "s\<lparr>prngState := st\<rparr>"
    let ?e = "energy (pond s (pptr s))"
    let ?tmp = "?e div FAILED_KILL_PENALTY"
    have pen: "unat (?e - ?tmp) \<le> unat ?e" if "?e > ?tmp"
    proof -
      have "?tmp \<le> ?e" using that by simp
      then have "unat (?e - ?tmp) = unat ?e - unat ?tmp" by (rule unat_sub)
      then show ?thesis by simp
    qed
    have "s' = ?s1 \<or> s' = set_energy (pptr s) (?e - ?tmp) ?s1 \<and> ?e > ?tmp \<or> s' = set_energy (pptr s) 0 ?s1"
      using assms a False by (auto simp: op_KILL_def Let_def split: if_splits)
    then show ?thesis
      using pen pond_energy_set_energy_le[of "?e - ?tmp" ?s1 "pptr s"]
        pond_energy_set_energy_le[of 0 ?s1 "pptr s"]
      by (auto simp: nonincr_def set_energy_def)
  qed
qed

lemma share_energy:
  fixes t :: sim and p q :: cellptr
  defines "tmp \<equiv> energy (pond t p) + energy (pond t q)"
  defines "s3 \<equiv> set_energy q (tmp div 2) t"
  shows "pond_energy (set_energy p (tmp - energy (pond s3 q)) s3) \<le> pond_energy t"
proof -
  have q3: "energy (pond s3 q) = tmp div 2" by (simp add: s3_def set_energy_def)
  have p3: "energy (pond s3 p) = (if p = q then tmp div 2 else energy (pond t p))"
    by (simp add: s3_def set_energy_def)
  have A: "pond_energy (set_energy p (tmp - tmp div 2) s3) + unat (energy (pond s3 p))
           = pond_energy s3 + unat (tmp - tmp div 2)"
    by (rule pond_energy_set_energy)
  have B: "pond_energy s3 + unat (energy (pond t q)) = pond_energy t + unat (tmp div 2)"
    unfolding s3_def by (rule pond_energy_set_energy)
  have H: "unat (tmp - tmp div 2) + unat (tmp div 2) = unat tmp" by (rule half_split)
  show ?thesis
  proof (cases "p = q")
    case True
    have "unat (tmp - tmp div 2) \<le> unat (energy (pond t q))"
      unfolding tmp_def True by (rule double_half_le)
    then show ?thesis using A B p3 True by (simp add: q3)
  next
    case False
    have "unat tmp \<le> unat (energy (pond t p)) + unat (energy (pond t q))"
      unfolding tmp_def by (rule unat_add_le)
    then show ?thesis using A B H p3 False by (simp add: q3)
  qed
qed

lemma op_SHARE_nonincr:
  assumes "op_SHARE s = Some s'"
  shows "nonincr s s'"
proof -
  let ?q = "getNeighbor (pptr s) (facing s)"
  obtain ok st where a: "accessAllowed (pond s ?q) (reg s) 1 (prngState s) = Some (ok, st)"
    using assms by (auto simp: op_SHARE_def Let_def split: bind_splits)
  show ?thesis
  proof (cases ok)
    case False
    then have "s' = s\<lparr>prngState := st\<rparr>" using assms a by (simp add: op_SHARE_def Let_def)
    then show ?thesis by (simp add: nonincr_def)
  next
    case True
    have pp: "\<And>p e t. pptr (set_energy p e t) = pptr t" by (simp add: set_energy_def)
    show ?thesis
    proof (cases "2 < generation (pond s ?q)")
      case g: True
      show ?thesis
        using share_energy[where t="s\<lparr>prngState := st, viableCellShares := viableCellShares s + 1\<rparr>" and p="pptr s" and q="?q"]
          assms a True g
        by (auto simp: op_SHARE_def Let_def nonincr_def pp)
    next
      case g: False
      show ?thesis
        using share_energy[where t="s\<lparr>prngState := st\<rparr>" and p="pptr s" and q="?q"] assms a True g
        by (auto simp: op_SHARE_def Let_def nonincr_def pp)
    qed
  qed
qed

lemmas op_nonincr =
  op_simple_emap[THEN nonincr_emap] op_READG_emap[THEN nonincr_emap] op_READB_emap[THEN nonincr_emap]
  op_WRITEB_emap[THEN nonincr_emap] op_WRITEG_emap[THEN nonincr_emap] op_LOOP_emap[THEN nonincr_emap]
  op_XCHG_emap[THEN nonincr_emap] op_KILL_nonincr op_SHARE_nonincr

lemma dispatch_nonincr: "dispatch inst s = Some (c, s') \<Longrightarrow> nonincr s s'"
  unfolding dispatch_def
  by (auto split: if_splits dest: op_nonincr op_REP_emap[THEN nonincr_emap] simp: nonincr_def)

lemma nonincr_trans: "nonincr a b \<Longrightarrow> nonincr b c \<Longrightarrow> nonincr a c"
  by (auto simp: nonincr_def)

lemma advance_nonincr: "advance s = Some s' \<Longrightarrow> nonincr s s'"
  by (rule nonincr_emap) (rule advance_emap)

lemma exec_inst_nonincr:
  assumes "exec_inst inst s = Some s'"
  shows "nonincr s s'"
proof (cases "falseLoopDepth s = 0")
  case False
  then obtain d where "advance (s\<lparr>falseLoopDepth := d\<rparr>) = Some s'"
    using assms by (auto simp: exec_inst_def split: if_splits) (metis sim.surjective sim.update_convs(21))
  from advance_nonincr[OF this] show ?thesis by (simp add: nonincr_def)
next
  case True
  then obtain ie c s1 where d: "dispatch inst (s\<lparr>instructionExecutions := ie\<rparr>) = Some (c, s1)"
    and r: "s' = s1 \<or> advance s1 = Some s'"
    using assms by (auto simp: exec_inst_def split: bind_splits if_splits)
  from dispatch_nonincr[OF d] have "nonincr s s1" by (simp add: nonincr_def)
  then show ?thesis using r advance_nonincr nonincr_trans by blast
qed

lemma step_decreases:
  assumes "energy (pond s (pptr s)) \<noteq> 0" and "step s = Some s'"
  shows "pond_energy s' < pond_energy s"
proof -
  obtain i0 where "fetch s = Some i0" using assms(2) by (auto simp: step_def split: bind_splits)
  define s1 where "s1 = snd (mutate i0 s)"
  define i where "i = fst (mutate i0 s)"
  have e: "exec_inst i (dec_energy s1) = Some s'"
    using assms(2) \<open>fetch s = Some i0\<close> by (simp add: step_def s1_def i_def split: prod.splits)
  have "emap s1 = emap s" "pptr s1 = pptr s" by (simp_all add: s1_def emap_mutate pptr_mutate)
  then have "emap s1 (pptr s1) = emap s (pptr s)" "pond_energy s1 = pond_energy s"
    by (simp_all add: pond_energy_def)
  then have "energy (pond s1 (pptr s1)) \<noteq> 0" "pond_energy s1 = pond_energy s"
    using assms(1) by (simp_all add: emap_def)
  then have "pond_energy (dec_energy s1) + 1 = pond_energy s"
    using pond_energy_dec[of s1] by simp
  moreover have "pond_energy s' \<le> pond_energy (dec_energy s1)"
    using exec_inst_nonincr[OF e] by (simp add: nonincr_def)
  ultimately show ?thesis by simp
qed

text \<open>
  The loop itself. Its first argument counts the iterations made so far; the C code has
  no such counter, it is there to state how many steps an execution takes.
\<close>

function cell_exec :: "nat \<Rightarrow> sim \<Rightarrow> (nat \<times> sim) option" where
  "cell_exec n s =
     (if energy (pond s (pptr s)) \<noteq> 0 \<and> \<not> stop s
      then (case step s of None \<Rightarrow> None | Some s' \<Rightarrow> cell_exec (Suc n) s')
      else Some (n, s))"
  by pat_completeness auto
termination
  by (relation "measure (\<lambda>(n, s). pond_energy s)") (auto dest: step_decreases)

section \<open>The scheduler\<close>

definition REPORT_FREQUENCY :: "64 word" where "REPORT_FREQUENCY = 200000"
definition INFLOW_FREQUENCY :: "64 word" where "INFLOW_FREQUENCY = 100"

definition cell_upd :: "cellptr \<Rightarrow> (Cell \<Rightarrow> Cell) \<Rightarrow> sim \<Rightarrow> sim" where
  "cell_upd p f s = s\<lparr>pond := (pond s)(p := f (pond s p))\<rparr>"

subsection \<open>Seeding\<close>

text \<open>\<^verbatim>\<open>for(i=0;i<n;++i) g[i] = getRandom();\<close>\<close>

fun fill_random :: "nat \<Rightarrow> 64 word list \<Rightarrow> prng \<Rightarrow> (64 word list \<times> prng) option" where
  "fill_random 0 g st = Some (g, st)"
| "fill_random (Suc n) g st = do {
     (g1, st1) \<leftarrow> fill_random n g st;
     let (r, st2) = getRandom st1;
     g2 \<leftarrow> wr g1 (of_nat n) r;
     Some (g2, st2)
   }"

definition seed :: "sim \<Rightarrow> sim option" where
  "seed s =
     (let (rx, st1) = getRandom (prngState s);
          x = rx mod POND_SIZE_X;
          (ry, st2) = getRandom st1;
          y = ry mod POND_SIZE_Y;
          p = (x, y);
          s1 = cell_upd p (\<lambda>c. c\<lparr>ID := cellIdCounter s, parentID := 0,
                                  lineage := cellIdCounter s, generation := 0\<rparr>)
                 (s\<lparr>prngState := st2\<rparr>);
          (rv, st3) = getRandom (prngState s1);
          s2 = set_energy p (energy (pond s1 p) + (INFLOW_RATE_BASE + rv mod INFLOW_RATE_VARIATION))
                 (s1\<lparr>prngState := st3\<rparr>)
      in do {
        (g, st4) \<leftarrow> fill_random (unat POND_DEPTH_SYSWORDS) (genome (pond s2 p)) (prngState s2);
        Some ((set_genome p g s2)\<lparr>prngState := st4, cellIdCounter := cellIdCounter s2 + 1\<rparr>)
      })"

subsection \<open>Choosing a cell and resetting the virtual machine\<close>

definition pick_cell :: "sim \<Rightarrow> cellptr \<times> sim" where
  "pick_cell s =
     (let (i, st) = getRandom (prngState s);
          x = i mod POND_SIZE_X;
          y = drop_bit 1 (i div POND_SIZE_X) mod POND_SIZE_Y
      in ((x, y), s\<lparr>prngState := st\<rparr>))"

text \<open>
  The state in which the execution loop is entered for the cell \<open>p\<close>: the output buffer
  is all ones, the registers are zero, the cursor is at word 0, bit 4.
\<close>

definition reset_vm :: "cellptr \<Rightarrow> sim \<Rightarrow> sim option" where
  "reset_vm p s =
     (let s1 = s\<lparr>pptr := p,
                  outputBuf := replicate (unat POND_DEPTH_SYSWORDS) (NOT 0),
                  ptr_wordPtr := 0, ptr_shiftPtr := 0, reg := 0, loopStackPtr := 0,
                  wordPtr := EXEC_START_WORD, shiftPtr := EXEC_START_BIT,
                  facing := 0, falseLoopDepth := 0, stop := False\<rparr>
      in do {
        cw \<leftarrow> rd (genome (pond s1 (pptr s1))) 0;
        Some (s1\<lparr>currentWord := cw, cellExecutions := dbl_succ (cellExecutions s1)\<rparr>)
      })"

subsection \<open>Offspring commit\<close>

text \<open>\<^verbatim>\<open>for(i=0;i<n;++i) dst[i] = src[i];\<close>\<close>

fun copy_words :: "nat \<Rightarrow> 64 word list \<Rightarrow> 64 word list \<Rightarrow> 64 word list option" where
  "copy_words 0 src dst = Some dst"
| "copy_words (Suc n) src dst = do {
     d \<leftarrow> copy_words n src dst;
     v \<leftarrow> rd src (of_nat n);
     wr d (of_nat n) v
   }"

definition commit :: "sim \<Rightarrow> sim option" where
  "commit s = do {
     b0 \<leftarrow> rd (outputBuf s) 0;
     if b0 AND 0xff \<noteq> 0xff then
       (let tmpptr = getNeighbor (pptr s) (facing s) in
        if energy (pond s tmpptr) \<noteq> 0 then do {
          (ok, st) \<leftarrow> accessAllowed (pond s tmpptr) (reg s) 0 (prngState s);
          let s1 = s\<lparr>prngState := st\<rparr>;
          if ok then
            (let s2 = (if generation (pond s1 tmpptr) > 2
                       then s1\<lparr>viableCellsReplaced := viableCellsReplaced s1 + 1\<rparr> else s1);
                 s3 = s2\<lparr>cellIdCounter := cellIdCounter s2 + 1\<rparr>;
                 s4 = cell_upd tmpptr (\<lambda>c. c\<lparr>ID := cellIdCounter s3\<rparr>) s3;
                 s5 = cell_upd tmpptr (\<lambda>c. c\<lparr>parentID := ID (pond s4 (pptr s4))\<rparr>) s4;
                 s6 = cell_upd tmpptr (\<lambda>c. c\<lparr>lineage := lineage (pond s5 (pptr s5))\<rparr>) s5;
                 s7 = cell_upd tmpptr (\<lambda>c. c\<lparr>generation := generation (pond s6 (pptr s6)) + 1\<rparr>) s6
             in do {
               g \<leftarrow> copy_words (unat POND_DEPTH_SYSWORDS) (outputBuf s7) (genome (pond s7 tmpptr));
               Some (set_genome tmpptr g s7)
             })
          else Some s1
        } else Some s)
     else Some s
   }"

subsection \<open>One tick of the main loop\<close>

text \<open>
  \<open>clock\<close> is the value after \<^verbatim>\<open>++clock\<close>. The report itself is modelled in the
  next section; for the state it only zeroes the statistics.
\<close>

definition reset_statCounters :: "sim \<Rightarrow> sim" where
  "reset_statCounters s =
     s\<lparr>instructionExecutions := replicate 16 0, cellExecutions := 0,
       viableCellsReplaced := 0, viableCellsKilled := 0, viableCellShares := 0\<rparr>"

definition tick :: "64 word \<Rightarrow> sim \<Rightarrow> sim option" where
  "tick clock s = do {
     let s1 = (if clock mod REPORT_FREQUENCY = 0 then reset_statCounters s else s);
     s2 \<leftarrow> (if clock mod INFLOW_FREQUENCY = 0 then seed s1 else Some s1);
     let (p, s3) = pick_cell s2;
     s4 \<leftarrow> reset_vm p s3;
     (n, s5) \<leftarrow> cell_exec 0 s4;
     commit s5
   }"

subsection \<open>The initial state\<close>

text \<open>
  The state that \<^verbatim>\<open>main\<close> sets up: every cell zero with a genome of all ones.
  \<open>r\<close> is the value of \<^verbatim>\<open>rand()\<close> after \<^verbatim>\<open>srand(13)\<close>. The locals of
  \<^verbatim>\<open>run\<close> are not initialised in C; they are zero here, and \<open>reset_vm\<close>
  overwrites all of them but the two loop-stack arrays before the first execution.
\<close>

definition blank_cell :: Cell where
  "blank_cell = \<lparr>ID = 0, parentID = 0, lineage = 0, generation = 0, energy = 0,
                  genome = replicate (unat POND_DEPTH_SYSWORDS) (NOT 0)\<rparr>"

definition blank_stack :: "64 word list" where
  "blank_stack = replicate (unat POND_DEPTH) 0"

lemma blank_stack_len: "length blank_stack = 1024"
  by (simp add: blank_stack_def pond_consts)

definition init_sim :: "64 word \<Rightarrow> sim" where
  "init_sim r =
     \<lparr>prngState = (13, r), pond = (\<lambda>p. blank_cell), cellIdCounter = 0,
      instructionExecutions = replicate 16 0, cellExecutions = 0,
      viableCellsReplaced = 0, viableCellsKilled = 0, viableCellShares = 0,
      pptr = (0, 0), outputBuf = replicate (unat POND_DEPTH_SYSWORDS) 0, currentWord = 0,
      wordPtr = 0, shiftPtr = 0, ptr_wordPtr = 0, ptr_shiftPtr = 0, reg = 0, facing = 0,
      loopStack_wordPtr = blank_stack, loopStack_shiftPtr = blank_stack,
      loopStackPtr = 0, falseLoopDepth = 0, stop = False\<rparr>"

section \<open>The report\<close>

text \<open>
  The scan of the pond, in the order of the two nested loops. The accumulator is
  \<open>(totalActiveCells, totalEnergy, totalViableReplicators, maxGeneration)\<close>.
\<close>

definition scan_cell :: "Cell \<Rightarrow> 64 word \<times> 64 word \<times> 64 word \<times> 64 word
                          \<Rightarrow> 64 word \<times> 64 word \<times> 64 word \<times> 64 word" where
  "scan_cell c acc =
     (let (a, e, v, m) = acc in
      if energy c \<noteq> 0
      then (a + 1, e + energy c, (if generation c > 2 then v + 1 else v),
            (if generation c > m then generation c else m))
      else (a, e, v, m))"

definition pond_cells :: "cellptr list" where
  "pond_cells = concat (map (\<lambda>x. map (\<lambda>y. (of_nat x, of_nat y)) [0..<unat POND_SIZE_Y])
                            [0..<unat POND_SIZE_X])"

definition scan_pond :: "sim \<Rightarrow> 64 word \<times> 64 word \<times> 64 word \<times> 64 word" where
  "scan_pond s = fold (\<lambda>p. scan_cell (pond s p)) pond_cells (0, 0, 0, 0)"

text \<open>\<^verbatim>\<open>printf("%" PRIu64, w)\<close>: the decimal digits of \<open>w\<close>.\<close>

definition digit_char :: "nat \<Rightarrow> char" where
  "digit_char d = char_of (48 + d)"

function show_nat :: "nat \<Rightarrow> string" where
  "show_nat n = (if n < 10 then [digit_char n] else show_nat (n div 10) @ [digit_char (n mod 10)])"
  by pat_completeness auto
termination
  by (relation "measure id") auto

declare show_nat.simps [simp del]

definition fmt_u64 :: "64 word \<Rightarrow> string" where
  "fmt_u64 w = show_nat (unat w)"

text \<open>
  \<^verbatim>\<open>printf("%.4f", (cellExecutions > 0.0) ? (a / cellExecutions) : 0.0)\<close>. The text
  that \<^verbatim>\<open>%.4f\<close> makes of the quotient of two doubles is the parameter \<open>fmt\<close>; of 0.0
  it makes \<open>0.0000\<close>.
\<close>

definition fmt_freq :: "(int \<Rightarrow> int \<Rightarrow> string) \<Rightarrow> int \<Rightarrow> int \<Rightarrow> string" where
  "fmt_freq fmt a ce = (if ce > 0 then fmt a ce else ''0.0000'')"

text \<open>
  \<open>totalMetabolism\<close> is a double that receives the counters one after the other. The
  counters are whole numbers and so are the sums; \<open>dbl_round\<close> is the rounding of a whole
  number that is not negative to the nearest double (53 bits of mantissa, ties to the even
  mantissa), which leaves the numbers below \<open>2 ^ 53\<close> as they are.
\<close>

function dbl_exp :: "int \<Rightarrow> nat" where
  "dbl_exp x = (if x < 2 ^ 53 then 0 else Suc (dbl_exp (x div 2)))"
  by pat_completeness auto
termination
  by (relation "measure nat") auto

declare dbl_exp.simps [simp del]

definition dbl_round :: "int \<Rightarrow> int" where
  "dbl_round x =
     (let e = dbl_exp x; q = x div 2 ^ e; r = x mod 2 ^ e in
      if e = 0 then x
      else if 2 * r > 2 ^ e \<or> (2 * r = 2 ^ e \<and> odd q) then (q + 1) * 2 ^ e
      else q * 2 ^ e)"

text \<open>
  The loop over the 16 instructions after \<open>n\<close> iterations: \<open>totalMetabolism\<close> and the
  text printed so far.
\<close>

fun freq_loop :: "(int \<Rightarrow> int \<Rightarrow> string) \<Rightarrow> int list \<Rightarrow> int \<Rightarrow> nat \<Rightarrow> (int \<times> string) option" where
  "freq_loop fmt ie ce 0 = Some (0, [])"
| "freq_loop fmt ie ce (Suc n) = do {
     (tm, out) \<leftarrow> freq_loop fmt ie ce n;
     a \<leftarrow> rd ie (of_nat n);
     Some (dbl_round (tm + a), out @ '','' @ fmt_freq fmt a ce)
   }"

text \<open>What \<open>doReport\<close> writes to the standard output.\<close>

definition doReport :: "(int \<Rightarrow> int \<Rightarrow> string) \<Rightarrow> 64 word \<Rightarrow> sim \<Rightarrow> string option" where
  "doReport fmt clock s =
     (let (totalActiveCells, totalEnergy, totalViableReplicators, maxGeneration) = scan_pond s in
      do {
        (totalMetabolism, freqs) \<leftarrow> freq_loop fmt (instructionExecutions s) (cellExecutions s) 16;
        Some (fmt_u64 clock @ '','' @ fmt_u64 totalEnergy @ '','' @ fmt_u64 totalActiveCells @ '',''
              @ fmt_u64 totalViableReplicators @ '','' @ fmt_u64 maxGeneration @ '',''
              @ fmt_u64 (viableCellsReplaced s) @ '','' @ fmt_u64 (viableCellsKilled s) @ '',''
              @ fmt_u64 (viableCellShares s) @ '',''
              @ freqs
              @ '','' @ fmt_freq fmt totalMetabolism (cellExecutions s) @ [CHR 0x0A])
      })"

text \<open>The fields of a line of comma-separated values.\<close>

fun split_on :: "char \<Rightarrow> string \<Rightarrow> string list" where
  "split_on c [] = [[]]"
| "split_on c (x # xs) =
     (if x = c then [] # split_on c xs
      else (case split_on c xs of f # fs \<Rightarrow> (x # f) # fs | [] \<Rightarrow> [[x]]))"

section \<open>Properties\<close>

subsection \<open>The access gate\<close>

lemma nibble_cases:
  fixes v :: "64 word"
  assumes "v \<le> 15"
  shows "v \<in> {0,1,2,3,4,5,6,7,8,9,10,11,12,13,14,15}"
proof -
  have "unat v < 16" using assms by (simp add: word_le_nat_alt)
  then have "unat v \<in> {0,1,2,3,4,5,6,7,8,9,10,11,12,13,14,15}"
    by (simp only: insert_iff empty_iff) arith
  then show ?thesis
    by (simp add: word_unat_eq_iff)
qed

lemma popcount_nibbles:
  "map popcount [0,1,2,3,4,5,6,7,8,9,10,11,12,13,14,15] = [0,1,1,2,1,2,2,3,1,2,2,3,2,3,3,4]"
  by code_simp

lemma bits_table:
  assumes "v \<le> 15"
  shows "rd BITS_IN_FOURBIT_WORD v = Some (of_nat (popcount v))"
  using nibble_cases[OF assms] popcount_nibbles
  by (auto simp: rd_def BITS_IN_FOURBIT_WORD_def)

lemma nibble_xor_le: "((a::64 word) AND 0xf) XOR (b AND 0xf) \<le> 15"
proof -
  have "(a AND 0xf) XOR (b AND 0xf) = (a XOR b) AND 0xf"
    by (simp add: bit.conj_xor_distrib2)
  then show ?thesis by (simp add: word_and_le1)
qed

text \<open>
  Claim C8. For every target cell (with a genome word 0 to read), guess, sense and PRNG
  state, \<open>accessAllowed\<close> draws one random word, \<open>r\<close> being its low four bits, and
  with \<open>d\<close> the number of bits set in the first codon of the target's genome XOR the low
  four bits of the guess, it returns: for sense 0, true iff \<open>r \<le> d\<close> or the target's
  \<open>parentID\<close> is 0; for any other sense (the callers pass 1), true iff \<open>r \<ge> d\<close> or the
  target's \<open>parentID\<close> is 0. In particular it returns true whenever \<open>parentID\<close> is 0.
  The PRNG state is left advanced by exactly that one draw.
\<close>

theorem accessAllowed_gate:
  assumes "genome c2 \<noteq> []"
  shows "accessAllowed c2 guess sense st =
           Some ((if sense = 0
                  then fst (getRandom st) AND 0xf
                         \<le> of_nat (popcount ((genome c2 ! 0 AND 0xf) XOR (guess AND 0xf)))
                  else fst (getRandom st) AND 0xf
                         \<ge> of_nat (popcount ((genome c2 ! 0 AND 0xf) XOR (guess AND 0xf))))
                 \<or> parentID c2 = 0,
                 snd (getRandom st))
         \<and> (parentID c2 = 0 \<longrightarrow> map_option fst (accessAllowed c2 guess sense st) = Some True)"
proof -
  have g: "rd (genome c2) 0 = Some (genome c2 ! 0)" using assms by (simp add: rd_def)
  have b: "rd BITS_IN_FOURBIT_WORD ((genome c2 ! 0 AND 0xf) XOR (guess AND 0xf))
           = Some (of_nat (popcount ((genome c2 ! 0 AND 0xf) XOR (guess AND 0xf))))"
    by (rule bits_table) (rule nibble_xor_le)
  show ?thesis
    by (auto simp add: accessAllowed_def g b split: prod.splits)
qed

definition gate_cell :: Cell where
  "gate_cell = \<lparr>ID = 7, parentID = 3, lineage = 1, generation = 4, energy = 10,
                 genome = [0x35]\<rparr>"

lemma popcount_6: "popcount 6 = 2"
  by code_simp

theorem accessAllowed_gate_witness:
  "genome gate_cell \<noteq> []
   \<and> accessAllowed gate_cell 3 0 (13, 1804289383) = Some (False, (1804289383, 1829455408))
   \<and> accessAllowed (gate_cell\<lparr>parentID := 0\<rparr>) 3 1 (13, 1804289383)
       = Some (True, (1804289383, 1829455408))"
  using accessAllowed_gate[of gate_cell 3 0 "(13, 1804289383)"]
    accessAllowed_gate[of "gate_cell\<lparr>parentID := 0\<rparr>" 3 1 "(13, 1804289383)"]
  by (simp add: gate_cell_def getRandom_def popcount_6)

subsection \<open>Array indices stay in bounds\<close>

text \<open>
  The invariant of the execution loop: the arrays have their declared sizes, both cursors
  address a codon of the genome, the loop stack is at most \<open>POND_DEPTH\<close> deep and
  every entry below its top is a cursor that was pushed, and \<open>facing\<close> is a direction.
\<close>

definition cursor_ok :: "64 word \<Rightarrow> 64 word \<Rightarrow> bool" where
  "cursor_ok w sh \<longleftrightarrow> w < POND_DEPTH_SYSWORDS \<and> sh < SYSWORD_BITS \<and> 4 dvd unat sh"

lemma cursor_ok_unat: "cursor_ok w sh \<longleftrightarrow> unat w < 64 \<and> unat sh < 64 \<and> 4 dvd unat sh"
  by (simp add: cursor_ok_def pond_consts word_less_nat_alt)

lemma unat_plus4: "unat (sh :: 64 word) < 64 \<Longrightarrow> unat (sh + 4) = unat sh + 4"
  by (simp add: unat_word_ariths)

lemma unat_plus1: "unat (w :: 64 word) < 2000 \<Longrightarrow> unat (w + 1) = unat w + 1"
  by (simp add: unat_word_ariths)

lemma unat_minus4: "unat (sh :: 64 word) \<ge> 4 \<Longrightarrow> unat (sh - 4) = unat sh - 4"
  by (simp add: unat_sub word_le_nat_alt)

lemma unat_minus1: "(w :: 64 word) \<noteq> 0 \<Longrightarrow> unat (w - 1) = unat w - 1"
  by (simp add: unat_minus_one)

lemma next_cursor_ok:
  assumes "cursor_ok w sh"
  shows "cursor_ok (fst (next_cursor (w, sh))) (snd (next_cursor (w, sh)))"
  using assms unat_plus4[of sh] unat_plus1[of w]
  by (auto simp: cursor_ok_unat next_cursor_def Let_def pond_consts word_le_nat_alt)

lemma fwd_ok:
  assumes "cursor_ok w sh"
  shows "cursor_ok (if sh + 4 \<ge> SYSWORD_BITS then (if w + 1 \<ge> POND_DEPTH_SYSWORDS then 0 else w + 1) else w)
                   (if sh + 4 \<ge> SYSWORD_BITS then 0 else sh + 4)"
  using assms unat_plus4[of sh] unat_plus1[of w]
  by (auto simp: cursor_ok_unat pond_consts word_le_nat_alt)

lemma back_ok:
  assumes "cursor_ok w sh"
  shows "cursor_ok (if sh \<noteq> 0 then w else if w \<noteq> 0 then w - 1 else POND_DEPTH_SYSWORDS - 1)
                   (if sh \<noteq> 0 then sh - 4 else SYSWORD_BITS - 4)"
proof -
  have "sh \<noteq> 0 \<Longrightarrow> unat sh \<ge> 4"
    using assms dvd_imp_le[of 4 "unat sh"] by (simp add: cursor_ok_unat unat_gt_0)
  then show ?thesis
    using assms unat_minus4[of sh] unat_minus1[of w]
    by (auto simp: cursor_ok_unat pond_consts)
qed

lemma get_codon_ok:
  "sh < SYSWORD_BITS \<Longrightarrow> get_codon w sh = Some (drop_bit (unat sh) w AND 0xf)"
  by (simp add: get_codon_def shr_def pond_consts)

lemma set_codon_ok:
  "sh < SYSWORD_BITS \<Longrightarrow>
   set_codon w sh v = Some ((w AND NOT (push_bit (unat sh) 0xf)) OR push_bit (unat sh) v)"
  by (simp add: set_codon_def shl_def pond_consts)

lemma rd_ok: "unat i < length a \<Longrightarrow> rd a i = Some (a ! unat i)"
  by (simp add: rd_def)

lemma wr_ok: "unat i < length a \<Longrightarrow> wr a i v = Some (a[unat i := v])"
  by (simp add: wr_def)


definition arrays_ok :: "sim \<Rightarrow> bool" where
  "arrays_ok s \<longleftrightarrow>
     (\<forall>p. length (genome (pond s p)) = unat POND_DEPTH_SYSWORDS) \<and>
     length (outputBuf s) = unat POND_DEPTH_SYSWORDS \<and>
     length (instructionExecutions s) = 16 \<and>
     length (loopStack_wordPtr s) = unat POND_DEPTH \<and>
     length (loopStack_shiftPtr s) = unat POND_DEPTH"

definition stack_ok :: "sim \<Rightarrow> bool" where
  "stack_ok s \<longleftrightarrow>
     loopStackPtr s \<le> POND_DEPTH \<and>
     (\<forall>i < unat (loopStackPtr s). cursor_ok (loopStack_wordPtr s ! i) (loopStack_shiftPtr s ! i))"

definition vm_inv :: "sim \<Rightarrow> bool" where
  "vm_inv s \<longleftrightarrow>
     arrays_ok s \<and> cursor_ok (wordPtr s) (shiftPtr s) \<and>
     cursor_ok (ptr_wordPtr s) (ptr_shiftPtr s) \<and> stack_ok s \<and> facing s \<le> 3"

lemma PDS_unat: "unat POND_DEPTH_SYSWORDS = 64" "unat POND_DEPTH = 1024"
  by (simp_all add: pond_consts)

lemma cursor_okD: "cursor_ok w sh \<Longrightarrow> unat w < 64 \<and> sh < SYSWORD_BITS"
  by (simp add: cursor_ok_def pond_consts word_less_nat_alt)

lemma genome_len: "vm_inv s \<Longrightarrow> length (genome (pond s p)) = 64"
  unfolding vm_inv_def arrays_ok_def PDS_unat by blast

lemma op_ZERO_inv: "vm_inv s \<Longrightarrow> \<exists>s'. op_ZERO s = Some s' \<and> vm_inv s'"
  by (simp add: op_ZERO_def vm_inv_def arrays_ok_def stack_ok_def cursor_ok_unat)

lemma op_FWD_inv: "vm_inv s \<Longrightarrow> \<exists>s'. op_FWD s = Some s' \<and> vm_inv s'"
  using fwd_ok[of "ptr_wordPtr s" "ptr_shiftPtr s"]
  by (auto simp: op_FWD_def vm_inv_def arrays_ok_def stack_ok_def Let_def split: if_splits)

lemma op_BACK_inv: "vm_inv s \<Longrightarrow> \<exists>s'. op_BACK s = Some s' \<and> vm_inv s'"
  using back_ok[of "ptr_wordPtr s" "ptr_shiftPtr s"]
  by (auto simp: op_BACK_def vm_inv_def arrays_ok_def stack_ok_def Let_def split: if_splits)

lemma op_INC_inv: "vm_inv s \<Longrightarrow> \<exists>s'. op_INC s = Some s' \<and> vm_inv s'"
  by (simp add: op_INC_def vm_inv_def arrays_ok_def stack_ok_def)

lemma op_DEC_inv: "vm_inv s \<Longrightarrow> \<exists>s'. op_DEC s = Some s' \<and> vm_inv s'"
  by (simp add: op_DEC_def vm_inv_def arrays_ok_def stack_ok_def)

lemma op_TURN_inv: "vm_inv s \<Longrightarrow> \<exists>s'. op_TURN s = Some s' \<and> vm_inv s'"
  by (simp add: op_TURN_def vm_inv_def arrays_ok_def stack_ok_def word_and_le1)

lemma op_STOP_inv: "vm_inv s \<Longrightarrow> \<exists>s'. op_STOP s = Some s' \<and> vm_inv s'"
  by (simp add: op_STOP_def vm_inv_def arrays_ok_def stack_ok_def)

lemma op_READG_inv:
  assumes "vm_inv s"
  shows "\<exists>s'. op_READG s = Some s' \<and> vm_inv s'"
proof -
  have c: "cursor_ok (ptr_wordPtr s) (ptr_shiftPtr s)" using assms by (simp add: vm_inv_def)
  have l: "length (genome (pond s (pptr s))) = 64"
    using assms by (rule genome_len)
  show ?thesis
    using assms cursor_okD[OF c] l
    by (simp add: op_READG_def rd_ok get_codon_ok vm_inv_def arrays_ok_def stack_ok_def)
qed

lemma op_READB_inv:
  assumes "vm_inv s"
  shows "\<exists>s'. op_READB s = Some s' \<and> vm_inv s'"
proof -
  have c: "cursor_ok (ptr_wordPtr s) (ptr_shiftPtr s)" using assms by (simp add: vm_inv_def)
  have l: "length (outputBuf s) = 64"
    using assms by (simp add: vm_inv_def arrays_ok_def PDS_unat)
  show ?thesis
    using assms cursor_okD[OF c] l
    by (simp add: op_READB_def rd_ok get_codon_ok vm_inv_def arrays_ok_def stack_ok_def)
qed

lemma op_WRITEB_inv:
  assumes "vm_inv s"
  shows "\<exists>s'. op_WRITEB s = Some s' \<and> vm_inv s'"
proof -
  have c: "cursor_ok (ptr_wordPtr s) (ptr_shiftPtr s)" using assms by (simp add: vm_inv_def)
  have l: "length (outputBuf s) = 64"
    using assms by (simp add: vm_inv_def arrays_ok_def PDS_unat)
  show ?thesis
    using assms cursor_okD[OF c] l
    by (simp add: op_WRITEB_def rd_ok wr_ok set_codon_ok vm_inv_def arrays_ok_def stack_ok_def)
qed

lemma arrays_ok_set_genome:
  "arrays_ok s \<Longrightarrow> length g = unat POND_DEPTH_SYSWORDS \<Longrightarrow> arrays_ok (set_genome p g s)"
  by (simp add: arrays_ok_def set_genome_def)

lemma op_WRITEG_inv:
  assumes "vm_inv s"
  shows "\<exists>s'. op_WRITEG s = Some s' \<and> vm_inv s'"
proof -
  have c: "cursor_ok (ptr_wordPtr s) (ptr_shiftPtr s)" and e: "cursor_ok (wordPtr s) (shiftPtr s)"
    using assms by (simp_all add: vm_inv_def)
  have l: "length (genome (pond s (pptr s))) = 64"
    using assms by (rule genome_len)
  show ?thesis
    using assms cursor_okD[OF c] cursor_okD[OF e] l
    by (simp add: op_WRITEG_def rd_ok wr_ok set_codon_ok vm_inv_def arrays_ok_def stack_ok_def
        set_genome_def PDS_unat)
qed

lemma op_XCHG_inv:
  assumes "vm_inv s"
  shows "\<exists>s'. op_XCHG s = Some s' \<and> vm_inv s'"
proof -
  obtain wp sp where n: "next_cursor (wordPtr s, shiftPtr s) = (wp, sp)" by fastforce
  have e: "cursor_ok wp sp"
    using assms next_cursor_ok[of "wordPtr s" "shiftPtr s"] n by (simp add: vm_inv_def)
  have l: "length (genome (pond s (pptr s))) = 64"
    using assms by (rule genome_len)
  show ?thesis
    using assms cursor_okD[OF e] e l n
    by (simp add: op_XCHG_def rd_ok wr_ok get_codon_ok set_codon_ok vm_inv_def arrays_ok_def
        stack_ok_def set_genome_def PDS_unat Let_def)
qed

lemma advance_inv:
  assumes "vm_inv s"
  shows "\<exists>s'. advance s = Some s' \<and> vm_inv s'"
proof -
  obtain wp sp where n: "next_cursor (wordPtr s, shiftPtr s) = (wp, sp)" by fastforce
  have e: "cursor_ok wp sp"
    using assms next_cursor_ok[of "wordPtr s" "shiftPtr s"] n by (simp add: vm_inv_def)
  have l: "length (genome (pond s (pptr s))) = 64"
    using assms by (rule genome_len)
  show ?thesis
    using assms cursor_okD[OF e] e l n
    by (simp add: advance_def rd_ok vm_inv_def arrays_ok_def stack_ok_def Let_def)
qed


lemma op_LOOP_inv:
  assumes "vm_inv s"
  shows "\<exists>s'. op_LOOP s = Some s' \<and> vm_inv s'"
proof (cases "reg s \<noteq> 0 \<and> \<not> loopStackPtr s \<ge> POND_DEPTH")
  case False
  then show ?thesis
    using assms by (auto simp: op_LOOP_def vm_inv_def arrays_ok_def stack_ok_def)
next
  case True
  let ?n = "unat (loopStackPtr s)"
  have n: "?n < 1024" using True by (simp add: pond_consts word_le_nat_alt)
  then have n1: "unat (loopStackPtr s + 1) = ?n + 1" by (simp add: unat_plus1)
  have len: "length (loopStack_wordPtr s) = 1024" "length (loopStack_shiftPtr s) = 1024"
    using assms by (simp_all add: vm_inv_def arrays_ok_def PDS_unat)
  have e: "cursor_ok (wordPtr s) (shiftPtr s)" using assms by (simp add: vm_inv_def)
  have old: "\<forall>i < ?n. cursor_ok (loopStack_wordPtr s ! i) (loopStack_shiftPtr s ! i)"
    using assms by (simp add: vm_inv_def stack_ok_def)
  have new: "\<forall>i < ?n + 1. cursor_ok ((loopStack_wordPtr s)[?n := wordPtr s] ! i)
                                     ((loopStack_shiftPtr s)[?n := shiftPtr s] ! i)"
  proof (intro allI impI)
    fix i assume "i < ?n + 1"
    then show "cursor_ok ((loopStack_wordPtr s)[?n := wordPtr s] ! i)
                         ((loopStack_shiftPtr s)[?n := shiftPtr s] ! i)"
      using old e n len by (cases "i = ?n") simp_all
  qed
  have le: "loopStackPtr s + 1 \<le> POND_DEPTH"
    using n n1 by (simp add: word_le_nat_alt PDS_unat)
  show ?thesis
    using True assms n len new le n1
    by (simp add: op_LOOP_def wr_ok vm_inv_def arrays_ok_def stack_ok_def)
qed

lemma op_REP_inv:
  assumes "vm_inv s"
  shows "\<exists>c s'. op_REP s = Some (c, s') \<and> vm_inv s'"
proof (cases "loopStackPtr s \<noteq> 0")
  case False
  then show ?thesis using assms by (auto simp: op_REP_def)
next
  case True
  let ?n = "unat (loopStackPtr s)"
  have n1: "unat (loopStackPtr s - 1) = ?n - 1" using True by (rule unat_minus1)
  have pos: "0 < ?n" using True by (simp add: unat_gt_0)
  have n: "?n \<le> 1024" using assms by (simp add: vm_inv_def stack_ok_def word_le_nat_alt PDS_unat)
  have len: "length (loopStack_wordPtr s) = 1024" "length (loopStack_shiftPtr s) = 1024"
    using assms by (simp_all add: vm_inv_def arrays_ok_def PDS_unat)
  have old: "\<forall>i < ?n. cursor_ok (loopStack_wordPtr s ! i) (loopStack_shiftPtr s ! i)"
    using assms by (simp add: vm_inv_def stack_ok_def)
  then have top: "cursor_ok (loopStack_wordPtr s ! (?n - 1)) (loopStack_shiftPtr s ! (?n - 1))"
    using pos by simp
  have le: "loopStackPtr s - 1 \<le> POND_DEPTH"
    using n n1 by (simp add: word_le_nat_alt PDS_unat)
  have l: "length (genome (pond s (pptr s))) = 64" using assms by (rule genome_len)
  show ?thesis
    using True assms n pos len old top le n1 l cursor_okD[OF top]
    by (auto simp: op_REP_def rd_ok vm_inv_def arrays_ok_def stack_ok_def Let_def)
qed

lemma accessAllowed_total:
  assumes "genome c2 \<noteq> []"
  shows "\<exists>ok. accessAllowed c2 guess sense st = Some (ok, snd (getRandom st))"
proof -
  have g: "rd (genome c2) 0 = Some (genome c2 ! 0)" using assms by (simp add: rd_def)
  have b: "rd BITS_IN_FOURBIT_WORD ((genome c2 ! 0 AND 0xf) XOR (guess AND 0xf))
           = Some (of_nat (popcount ((genome c2 ! 0 AND 0xf) XOR (guess AND 0xf))))"
    by (rule bits_table) (rule nibble_xor_le)
  show ?thesis
    by (auto simp add: accessAllowed_def g b split: prod.splits)
qed

lemma vm_inv_frame:
  assumes "vm_inv s"
    and "\<forall>p. length (genome (pond s' p)) = length (genome (pond s p))"
    and "outputBuf s' = outputBuf s" "length (instructionExecutions s') = length (instructionExecutions s)"
    and "loopStack_wordPtr s' = loopStack_wordPtr s" "loopStack_shiftPtr s' = loopStack_shiftPtr s"
    and "wordPtr s' = wordPtr s" "shiftPtr s' = shiftPtr s" "ptr_wordPtr s' = ptr_wordPtr s"
    and "ptr_shiftPtr s' = ptr_shiftPtr s" "loopStackPtr s' = loopStackPtr s" "facing s' = facing s"
  shows "vm_inv s'"
  using assms unfolding vm_inv_def arrays_ok_def stack_ok_def by simp

lemma op_KILL_inv:
  assumes "vm_inv s"
  shows "\<exists>s'. op_KILL s = Some s' \<and> vm_inv s'"
proof -
  let ?q = "getNeighbor (pptr s) (facing s)"
  have l: "length (genome (pond s ?q)) = 64" using assms by (rule genome_len)
  then have ne: "genome (pond s ?q) \<noteq> []" by auto
  from accessAllowed_total[OF this] obtain ok
    where a: "accessAllowed (pond s ?q) (reg s) 0 (prngState s) = Some (ok, snd (getRandom (prngState s)))"
    by blast
  have "\<exists>s'. op_KILL s = Some s' \<and>
          (\<forall>p. length (genome (pond s' p)) = length (genome (pond s p))) \<and>
          outputBuf s' = outputBuf s \<and> length (instructionExecutions s') = length (instructionExecutions s) \<and>
          loopStack_wordPtr s' = loopStack_wordPtr s \<and> loopStack_shiftPtr s' = loopStack_shiftPtr s \<and>
          wordPtr s' = wordPtr s \<and> shiftPtr s' = shiftPtr s \<and> ptr_wordPtr s' = ptr_wordPtr s \<and>
          ptr_shiftPtr s' = ptr_shiftPtr s \<and> loopStackPtr s' = loopStackPtr s \<and> facing s' = facing s"
    using a l ne by (auto simp: op_KILL_def Let_def wr_def set_energy_def)
  then show ?thesis using vm_inv_frame[OF assms] by blast
qed

lemma op_SHARE_inv:
  assumes "vm_inv s"
  shows "\<exists>s'. op_SHARE s = Some s' \<and> vm_inv s'"
proof -
  let ?q = "getNeighbor (pptr s) (facing s)"
  have l: "length (genome (pond s ?q)) = 64" using assms by (rule genome_len)
  then have "genome (pond s ?q) \<noteq> []" by auto
  from accessAllowed_total[OF this] obtain ok
    where a: "accessAllowed (pond s ?q) (reg s) 1 (prngState s) = Some (ok, snd (getRandom (prngState s)))"
    by blast
  have "\<exists>s'. op_SHARE s = Some s' \<and>
          (\<forall>p. length (genome (pond s' p)) = length (genome (pond s p))) \<and>
          outputBuf s' = outputBuf s \<and> length (instructionExecutions s') = length (instructionExecutions s) \<and>
          loopStack_wordPtr s' = loopStack_wordPtr s \<and> loopStack_shiftPtr s' = loopStack_shiftPtr s \<and>
          wordPtr s' = wordPtr s \<and> shiftPtr s' = shiftPtr s \<and> ptr_wordPtr s' = ptr_wordPtr s \<and>
          ptr_shiftPtr s' = ptr_shiftPtr s \<and> loopStackPtr s' = loopStackPtr s \<and> facing s' = facing s"
    using a l by (simp add: op_SHARE_def Let_def set_energy_def)
  then show ?thesis using vm_inv_frame[OF assms] by blast
qed

lemma dispatch_inv:
  assumes "vm_inv s"
  shows "\<exists>c s'. dispatch inst s = Some (c, s') \<and> vm_inv s'"
  using op_ZERO_inv[OF assms] op_FWD_inv[OF assms] op_BACK_inv[OF assms] op_INC_inv[OF assms]
    op_DEC_inv[OF assms] op_READG_inv[OF assms] op_WRITEG_inv[OF assms] op_READB_inv[OF assms]
    op_WRITEB_inv[OF assms] op_LOOP_inv[OF assms] op_REP_inv[OF assms] op_TURN_inv[OF assms]
    op_XCHG_inv[OF assms] op_KILL_inv[OF assms] op_SHARE_inv[OF assms] op_STOP_inv[OF assms] assms
  unfolding dispatch_def by auto


definition static_ok :: "sim \<Rightarrow> bool" where
  "static_ok s \<longleftrightarrow>
     (\<forall>p. length (genome (pond s p)) = unat POND_DEPTH_SYSWORDS) \<and>
     length (instructionExecutions s) = 16 \<and>
     length (loopStack_wordPtr s) = unat POND_DEPTH \<and>
     length (loopStack_shiftPtr s) = unat POND_DEPTH"

lemma reset_vm_inv:
  assumes "static_ok s"
  shows "\<exists>s0. reset_vm p s = Some s0 \<and> vm_inv s0"
proof -
  have "length (genome (pond s p)) = 64"
    using assms unfolding static_ok_def PDS_unat by blast
  then show ?thesis
    using assms
    by (simp add: reset_vm_def Let_def rd_ok vm_inv_def arrays_ok_def stack_ok_def static_ok_def
        cursor_ok_unat pond_consts)
qed

lemma exec_inst_inv:
  assumes "vm_inv s" and "inst \<le> 15"
  shows "\<exists>s'. exec_inst inst s = Some s' \<and> vm_inv s'"
proof (cases "falseLoopDepth s = 0")
  case False
  have "vm_inv (s\<lparr>falseLoopDepth := d\<rparr>)" for d
    using assms(1) by (rule vm_inv_frame) simp_all
  then show ?thesis
    using False advance_inv assms(1) by (simp add: exec_inst_def)
next
  case True
  have i: "unat inst < length (instructionExecutions s)"
    using assms by (simp add: vm_inv_def arrays_ok_def word_le_nat_alt)
  let ?s1 = "s\<lparr>instructionExecutions :=
                 (instructionExecutions s)[unat inst := dbl_succ (instructionExecutions s ! unat inst)]\<rparr>"
  have "vm_inv ?s1" using assms(1) by (rule vm_inv_frame) simp_all
  from dispatch_inv[OF this, of inst] obtain c s2
    where d: "dispatch inst ?s1 = Some (c, s2)" and v: "vm_inv s2" by blast
  show ?thesis
    using True i d v advance_inv[OF v] by (auto simp: exec_inst_def rd_ok wr_ok)
qed

lemma mutate_inv:
  assumes "vm_inv s" and "i \<le> 15"
  shows "vm_inv (snd (mutate i s)) \<and> fst (mutate i s) \<le> 15"
proof -
  have "vm_inv (s\<lparr>prngState := a\<rparr>)" "vm_inv (s\<lparr>prngState := a, reg := b\<rparr>)" for a b
    using assms(1) by (rule vm_inv_frame; simp)+
  then show ?thesis
    using assms(2) by (simp add: mutate_def Let_def word_and_le1 split: prod.splits)
qed

lemma dec_energy_inv: "vm_inv s \<Longrightarrow> vm_inv (dec_energy s)"
  by (erule vm_inv_frame) (simp_all add: dec_energy_def set_energy_def)

lemma step_inv:
  assumes "vm_inv s"
  shows "\<exists>s'. step s = Some s' \<and> vm_inv s'"
proof -
  have c: "cursor_ok (wordPtr s) (shiftPtr s)" using assms by (simp add: vm_inv_def)
  let ?i0 = "drop_bit (unat (shiftPtr s)) (currentWord s) AND 0xf"
  have f: "fetch s = Some ?i0" using cursor_okD[OF c] by (simp add: fetch_def get_codon_ok)
  have "?i0 \<le> 15" by (simp add: word_and_le1)
  from mutate_inv[OF assms this]
  have m: "vm_inv (snd (mutate ?i0 s))" "fst (mutate ?i0 s) \<le> 15" by simp_all
  from exec_inst_inv[OF dec_energy_inv[OF m(1)] m(2)]
  show ?thesis using f by (auto simp: step_def split: prod.splits)
qed

lemma cell_exec_inv:
  "vm_inv s \<Longrightarrow> \<exists>n' s'. cell_exec n s = Some (n', s') \<and> vm_inv s'"
proof (induction n s rule: cell_exec.induct)
  case (1 n s)
  show ?case
  proof (cases "energy (pond s (pptr s)) \<noteq> 0 \<and> \<not> stop s")
    case False
    then show ?thesis using "1.prems" by auto
  next
    case True
    from step_inv[OF "1.prems"] obtain s1 where s1: "step s = Some s1" "vm_inv s1" by blast
    from "1.IH"[OF True s1] show ?thesis using True s1 by simp
  qed
qed

text \<open>
  Claim C9. The execution loop is entered in a state that satisfies the invariant
  \<open>vm_inv\<close> (word indices of the data pointer and of the execution cursor below
  \<open>POND_DEPTH_SYSWORDS\<close>, shift amounts multiples of 4 below the word width, loop-stack
  depth at most \<open>POND_DEPTH\<close>); from a state that satisfies it, an iteration makes no
  access outside an array and no oversized shift (the model returns \<open>None\<close> on
  those) and ends in a state that satisfies it again; so does the whole loop.
\<close>

theorem vm_accesses_in_bounds:
  "(static_ok s \<longrightarrow> (\<exists>s0. reset_vm p s = Some s0 \<and> vm_inv s0))
   \<and> (vm_inv s \<longrightarrow> (\<exists>s'. step s = Some s' \<and> vm_inv s')
                   \<and> (\<exists>n' s'. cell_exec n s = Some (n', s') \<and> vm_inv s'))"
  using reset_vm_inv[of s p] step_inv[of s] cell_exec_inv[of s n] by blast

text \<open>
  A pond with one living cell, at (1, 1), with energy 100. Its genome is, after the
  first codon (1): INC, LOOP, READG, WRITEB, FWD, DEC, REP, STOP. The execution takes
  8 steps: it pushes the loop stack, reads the first codon of the genome, writes it to
  the output buffer, moves the data pointer, and pops the loop stack.
\<close>

definition live_sim :: sim where
  "live_sim = (init_sim 1804289383)
     \<lparr>pond := (\<lambda>p. blank_cell)
         ((1, 1) := blank_cell\<lparr>ID := 5, parentID := 2, lineage := 2, generation := 3, energy := 100,
                                genome := 0xffffffffa4185931 # replicate 63 (NOT 0)\<rparr>)\<rparr>"

lemma static_ok_live_sim: "static_ok live_sim"
  by (simp add: static_ok_def live_sim_def init_sim_def blank_cell_def blank_stack_len pond_consts)

lemma live_run:
  "map_option (\<lambda>(n, s'). (n, energy (pond s' (1, 1)), stop s', outputBuf s' ! 0,
                           instructionExecutions s' ! 5, instructionExecutions s' ! 8,
                           instructionExecutions s' ! 9, instructionExecutions s' ! 10))
     (reset_vm (1, 1) live_sim \<bind> cell_exec 0)
   = Some (8, 92, True, 0xfffffffffffffff1, 1, 1, 1, 1)"
  by (simp add: reset_vm_def cell_exec.simps step_def fetch_def get_codon_def shr_def shl_def
      set_codon_def mutate_def getRandom_def dec_energy_def set_energy_def exec_inst_def rd_def wr_def
      dispatch_def op_INC_def op_LOOP_def op_READG_def op_WRITEB_def op_FWD_def op_DEC_def op_REP_def
      op_STOP_def advance_def next_cursor_def dbl_succ_def live_sim_def init_sim_def blank_cell_def
      blank_stack_len Let_def pond_consts)

theorem vm_accesses_in_bounds_witness:
  "static_ok live_sim \<and> energy (pond live_sim (1, 1)) = 100
   \<and> (\<exists>s0. reset_vm (1, 1) live_sim = Some s0 \<and> vm_inv s0
          \<and> (\<exists>s'. step s0 = Some s' \<and> vm_inv s')
          \<and> (\<exists>s'. cell_exec 0 s0 = Some (8, s') \<and> vm_inv s'
                 \<and> outputBuf s' ! 0 = 0xfffffffffffffff1
                 \<and> instructionExecutions s' ! 5 = 1 \<and> instructionExecutions s' ! 8 = 1
                 \<and> instructionExecutions s' ! 9 = 1 \<and> instructionExecutions s' ! 10 = 1))"
proof -
  have e: "energy (pond live_sim (1, 1)) = 100"
    by (simp add: live_sim_def init_sim_def blank_cell_def)
  from vm_accesses_in_bounds[of live_sim "(1, 1)"] static_ok_live_sim
  obtain s0 where s0: "reset_vm (1, 1) live_sim = Some s0" "vm_inv s0" by blast
  from vm_accesses_in_bounds[of s0 _ 0] s0(2)
  obtain s1 n' s' where st: "step s0 = Some s1" "vm_inv s1"
    and ex: "cell_exec 0 s0 = Some (n', s')" "vm_inv s'" by blast
  have "n' = 8 \<and> outputBuf s' ! 0 = 0xfffffffffffffff1
                 \<and> instructionExecutions s' ! 5 = 1 \<and> instructionExecutions s' ! 8 = 1
                 \<and> instructionExecutions s' ! 9 = 1 \<and> instructionExecutions s' ! 10 = 1"
    using live_run s0(1) ex(1) by simp
  with static_ok_live_sim e s0 st ex show ?thesis by blast
qed

subsection \<open>SHARE\<close>

lemma dir_cases:
  fixes d :: "64 word"
  assumes "d \<le> 3"
  shows "d = 0 \<or> d = 1 \<or> d = 2 \<or> d = 3"
proof -
  have "d \<le> 15" using assms by unat_arith
  from nibble_cases[OF this] assms show ?thesis by auto
qed

lemma getNeighbor_neq:
  assumes "d \<le> 3"
  shows "getNeighbor p d \<noteq> p"
  using dir_cases[OF assms]
  by (auto simp: getNeighbor_def Let_def pond_consts prod_eq_iff)

text \<open>
  Claim C7. When a SHARE codon (0xe) is executed and \<open>accessAllowed\<close> with sense 1
  grants, then with \<open>total = self.energy + neighbor.energy\<close> (in \<^verbatim>\<open>uintptr_t\<close>
  arithmetic, \<open>self.energy\<close> being the value after the decrement that precedes the
  dispatch) the neighbor ends with \<open>total / 2\<close> and the actor with
  \<open>total - neighbor.energy\<close>. So the sum of the two energies is the same machine word
  as before, and the same number when the sum did not overflow; the actor has the
  neighbor's energy plus \<open>total mod 2\<close>: they differ by at most 1 and the actor keeps
  the remainder when \<open>total\<close> is odd.
\<close>

theorem share_equalizes:
  assumes "facing s \<le> 3"
    and "accessAllowed (pond s (getNeighbor (pptr s) (facing s))) (reg s) 1 (prngState s)
           = Some (True, st)"
  shows "\<exists>s'. dispatch 0xe s = Some (False, s') \<and>
           (let self = pptr s; neighbor = getNeighbor (pptr s) (facing s);
                total = energy (pond s self) + energy (pond s neighbor)
            in energy (pond s' neighbor) = total div 2
             \<and> energy (pond s' self) = total - energy (pond s' neighbor)
             \<and> energy (pond s' self) + energy (pond s' neighbor)
                 = energy (pond s self) + energy (pond s neighbor)
             \<and> unat (energy (pond s' self)) = unat (energy (pond s' neighbor)) + unat total mod 2
             \<and> (unat (energy (pond s self)) + unat (energy (pond s neighbor)) < 2 ^ 64 \<longrightarrow>
                  unat (energy (pond s' self)) + unat (energy (pond s' neighbor))
                    = unat (energy (pond s self)) + unat (energy (pond s neighbor))))"
proof -
  let ?p = "pptr s" and ?q = "getNeighbor (pptr s) (facing s)"
  let ?t = "energy (pond s ?p) + energy (pond s ?q)"
  have neq: "?q \<noteq> ?p" using assms(1) by (rule getNeighbor_neq)
  define s' where "s' = set_energy ?p (?t - ?t div 2) (set_energy ?q (?t div 2)
      (if generation (pond s ?q) > 2
       then s\<lparr>prngState := st, viableCellShares := viableCellShares s + 1\<rparr>
       else s\<lparr>prngState := st\<rparr>))"
  have d: "dispatch 0xe s = Some (False, s')"
    using assms(2) neq by (simp add: dispatch_def op_SHARE_def Let_def s'_def set_energy_def)
  have q: "energy (pond s' ?q) = ?t div 2" and p: "energy (pond s' ?p) = ?t - ?t div 2"
    using neq by (simp_all add: s'_def set_energy_def)
  have h: "unat (?t - ?t div 2) + unat (?t div 2) = unat ?t" by (rule half_split)
  have dv: "unat (?t div 2) = unat ?t div 2" by (simp add: unat_div)
  have odd: "unat (?t - ?t div 2) = unat (?t div 2) + unat ?t mod 2"
    using h dv by arith
  have nowrap: "unat (?t - ?t div 2) + unat (?t div 2) = unat (energy (pond s ?p)) + unat (energy (pond s ?q))"
    if "unat (energy (pond s ?p)) + unat (energy (pond s ?q)) < 2 ^ 64"
    using that h by (simp add: unat_word_ariths)
  show ?thesis
    using d p q odd nowrap by (simp add: Let_def)
qed

definition share_sim :: sim where
  "share_sim = (init_sim 1804289383)
     \<lparr>pond := (\<lambda>p. blank_cell)((1, 1) := blank_cell\<lparr>ID := 5, parentID := 2, energy := 10\<rparr>,
                                  (0, 1) := blank_cell\<lparr>ID := 6, parentID := 3, energy := 3\<rparr>),
      pptr := (1, 1)\<rparr>"

theorem share_equalizes_witness:
  "facing share_sim \<le> 3
   \<and> accessAllowed (pond share_sim (getNeighbor (pptr share_sim) (facing share_sim)))
        (reg share_sim) 1 (prngState share_sim) = Some (True, (1804289383, 1829455408))
   \<and> map_option (\<lambda>(c, s'). (energy (pond s' (1, 1)), energy (pond s' (0, 1))))
        (dispatch 0xe share_sim) = Some (7, 6)"
proof -
  have n: "getNeighbor (pptr share_sim) (facing share_sim) = (0, 1)"
    by (simp add: share_sim_def init_sim_def getNeighbor_def pond_consts)
  have f: "facing share_sim \<le> 3" by (simp add: share_sim_def init_sim_def)
  have a: "accessAllowed (pond share_sim (getNeighbor (pptr share_sim) (facing share_sim)))
        (reg share_sim) 1 (prngState share_sim) = Some (True, (1804289383, 1829455408))"
    unfolding n
    by (simp add: share_sim_def init_sim_def blank_cell_def accessAllowed_def getRandom_def
        rd_def BITS_IN_FOURBIT_WORD_def pond_consts)
  from share_equalizes[OF f a] n f a show ?thesis
    by (auto simp: Let_def share_sim_def init_sim_def blank_cell_def)
qed

subsection \<open>Offspring commit\<close>

lemma unat_of_nat_small: "n < 2 ^ 64 \<Longrightarrow> unat (of_nat n :: 64 word) = n"
  by (simp add: unat_of_nat)

lemma copy_words_take:
  "n \<le> length src \<Longrightarrow> n \<le> length dst \<Longrightarrow> length src < 2 ^ 64 \<Longrightarrow>
   copy_words n src dst = Some (take n src @ drop n dst)"
proof (induction n)
  case 0
  then show ?case by simp
next
  case (Suc n)
  have u: "unat (of_nat n :: 64 word) = n" using Suc.prems by (simp add: unat_of_nat_small)
  have "(take n src @ drop n dst)[n := src ! n] = take (Suc n) src @ drop (Suc n) dst"
    using Suc.prems
    by (simp add: list_update_append take_Suc_conv_app_nth upd_conv_take_nth_drop
        Cons_nth_drop_Suc[symmetric] drop_Suc)
  then show ?case
    using Suc u by (simp add: rd_def wr_def)
qed

lemma word_less_succ:
  fixes x c :: "64 word"
  assumes "x \<le> c" "c \<noteq> - 1"
  shows "x < c + 1"
proof -
  have "1 + c \<noteq> 0" using assms(2) by (simp add: add_eq_0_iff)
  then have "unat (1 + c) = Suc (unat c)" by (rule unatSuc)
  then show ?thesis using assms(1) by (simp add: word_less_nat_alt word_le_nat_alt add.commute)
qed

lemma copy_words_all:
  assumes "length src = unat POND_DEPTH_SYSWORDS" "length dst = unat POND_DEPTH_SYSWORDS"
  shows "copy_words (unat POND_DEPTH_SYSWORDS) src dst = Some src"
  using copy_words_take[of "unat POND_DEPTH_SYSWORDS" src dst] assms by (simp add: PDS_unat)

text \<open>
  Claim C5. After an execution (\<open>facing\<close> a direction, buffers of their declared
  size) the offspring commit takes place iff the low byte of word 0 of the output buffer
  is not 0xff, the neighbor \<open>facing\<close> points to has nonzero energy and
  \<open>accessAllowed\<close> with sense 0 grants. When it takes place the neighbor gets the id
  \<open>cellIdCounter + 1\<close>, to which the counter advances, and which is greater than every
  id in the pond when those are at most \<open>cellIdCounter\<close> and the counter does not
  wrap; its parent id is the id of the executed cell, its lineage the lineage of that
  cell, its generation that cell's plus 1, its genome the output buffer; its energy is
  unchanged, and \<open>viableCellsReplaced\<close> goes up by one exactly when the neighbor's
  generation was above 2. No other cell changes. When it does not take place, the pond,
  the id counter and \<open>viableCellsReplaced\<close> are unchanged.
\<close>

theorem commit_effect:
  assumes "facing s \<le> 3"
    and "length (outputBuf s) = unat POND_DEPTH_SYSWORDS"
    and "length (genome (pond s (getNeighbor (pptr s) (facing s)))) = unat POND_DEPTH_SYSWORDS"
  shows "\<exists>s'. commit s = Some s' \<and>
     (let self = pptr s; neighbor = getNeighbor (pptr s) (facing s) in
      if outputBuf s ! 0 AND 0xff \<noteq> 0xff \<and> energy (pond s neighbor) \<noteq> 0
         \<and> (\<exists>st. accessAllowed (pond s neighbor) (reg s) 0 (prngState s) = Some (True, st))
      then ID (pond s' neighbor) = cellIdCounter s + 1
         \<and> cellIdCounter s' = cellIdCounter s + 1
         \<and> ((\<forall>p. ID (pond s p) \<le> cellIdCounter s) \<and> cellIdCounter s \<noteq> - 1
              \<longrightarrow> (\<forall>p. ID (pond s p) < ID (pond s' neighbor)))
         \<and> parentID (pond s' neighbor) = ID (pond s self)
         \<and> lineage (pond s' neighbor) = lineage (pond s self)
         \<and> generation (pond s' neighbor) = generation (pond s self) + 1
         \<and> genome (pond s' neighbor) = outputBuf s
         \<and> energy (pond s' neighbor) = energy (pond s neighbor)
         \<and> viableCellsReplaced s' = viableCellsReplaced s
              + (if generation (pond s neighbor) > 2 then 1 else 0)
         \<and> (\<forall>p. p \<noteq> neighbor \<longrightarrow> pond s' p = pond s p)
      else pond s' = pond s \<and> cellIdCounter s' = cellIdCounter s
         \<and> viableCellsReplaced s' = viableCellsReplaced s)"
proof -
  let ?p = "pptr s" and ?q = "getNeighbor (pptr s) (facing s)"
  have neq: "?q \<noteq> ?p" using assms(1) by (rule getNeighbor_neq)
  have b0: "rd (outputBuf s) 0 = Some (outputBuf s ! 0)"
    using assms(2) by (simp add: rd_def PDS_unat)
  have "genome (pond s ?q) \<noteq> []" using assms(3) by (auto simp: PDS_unat)
  from accessAllowed_total[OF this] obtain ok
    where a: "accessAllowed (pond s ?q) (reg s) 0 (prngState s) = Some (ok, snd (getRandom (prngState s)))"
    by blast
  have cp: "copy_words (unat POND_DEPTH_SYSWORDS) (outputBuf s) (genome (pond s ?q)) = Some (outputBuf s)"
    using assms(2,3) by (rule copy_words_all)
  have fresh: "x < c + 1" if "x \<le> c" "c \<noteq> - 1" for x c :: "64 word"
    using that by (rule word_less_succ)
  show ?thesis
    using neq b0 a cp fresh
    by (auto simp: commit_def Let_def cell_upd_def set_genome_def)
qed


definition commit_sim :: sim where
  "commit_sim = (init_sim 2)
     \<lparr>pond := (\<lambda>p. blank_cell)
         ((1, 1) := blank_cell\<lparr>ID := 5, parentID := 2, lineage := 2, generation := 3, energy := 10\<rparr>,
          (0, 1) := blank_cell\<lparr>ID := 6, parentID := 3, lineage := 3, generation := 4, energy := 3\<rparr>),
      cellIdCounter := 7,
      pptr := (1, 1),
      outputBuf := 0x15 # replicate 63 (NOT 0)\<rparr>"

theorem commit_effect_witness:
  "facing commit_sim \<le> 3
   \<and> length (outputBuf commit_sim) = unat POND_DEPTH_SYSWORDS
   \<and> length (genome (pond commit_sim (getNeighbor (pptr commit_sim) (facing commit_sim))))
       = unat POND_DEPTH_SYSWORDS
   \<and> map_option (\<lambda>s'. (pond s' (0, 1), cellIdCounter s', viableCellsReplaced s')) (commit commit_sim)
       = Some (\<lparr>ID = 8, parentID = 5, lineage = 2, generation = 4, energy = 3,
                 genome = 0x15 # replicate 63 (NOT 0)\<rparr>, 8, 1)"
proof -
  have n: "getNeighbor (pptr commit_sim) (facing commit_sim) = (0, 1)"
    by (simp add: commit_sim_def init_sim_def getNeighbor_def pond_consts)
  have f: "facing commit_sim \<le> 3" by (simp add: commit_sim_def init_sim_def)
  have l: "length (outputBuf commit_sim) = unat POND_DEPTH_SYSWORDS"
    by (simp add: commit_sim_def init_sim_def pond_consts)
  have g: "length (genome (pond commit_sim (getNeighbor (pptr commit_sim) (facing commit_sim))))
       = unat POND_DEPTH_SYSWORDS"
    unfolding n by (simp add: commit_sim_def init_sim_def blank_cell_def)
  have fields: "pptr commit_sim = (1, 1)" "reg commit_sim = 0" "prngState commit_sim = (13, 2)"
    "cellIdCounter commit_sim = 7" "viableCellsReplaced commit_sim = 0"
    "outputBuf commit_sim = 0x15 # replicate 63 (NOT 0)"
    "energy (pond commit_sim (0, 1)) = 3" "generation (pond commit_sim (0, 1)) = 4"
    "ID (pond commit_sim (1, 1)) = 5" "lineage (pond commit_sim (1, 1)) = 2"
    "generation (pond commit_sim (1, 1)) = 3"
    by (simp_all add: commit_sim_def init_sim_def blank_cell_def)
  have a: "accessAllowed (pond commit_sim (0, 1)) 0 0 (13, 2) = Some (True, (2, 109052751))"
    by (simp add: commit_sim_def init_sim_def blank_cell_def accessAllowed_def getRandom_def
        rd_def BITS_IN_FOURBIT_WORD_def pond_consts)
  from commit_effect[OF f l g] obtain s' where s': "commit commit_sim = Some s'"
    and e: "ID (pond s' (0, 1)) = 8 \<and> cellIdCounter s' = 8 \<and> parentID (pond s' (0, 1)) = 5
        \<and> lineage (pond s' (0, 1)) = 2 \<and> generation (pond s' (0, 1)) = 4
        \<and> genome (pond s' (0, 1)) = 0x15 # replicate 63 (NOT 0)
        \<and> energy (pond s' (0, 1)) = 3 \<and> viableCellsReplaced s' = 1"
    unfolding n by (auto simp: Let_def fields a)
  have "pond s' (0, 1) = \<lparr>ID = 8, parentID = 5, lineage = 2, generation = 4, energy = 3,
                 genome = 0x15 # replicate 63 (NOT 0)\<rparr>"
    using e by (cases "pond s' (0, 1)") simp
  then show ?thesis using f l g s' e by simp
qed

subsection \<open>Cell ids\<close>

text \<open>
  What an executed KILL codon (0xd) does, for a granting and for a denying gate: the
  first two genome words of the neighbor become all ones, its id and lineage become the
  current value of \<open>cellIdCounter\<close>, which is then incremented, its parent id and
  generation become 0, its energy stays, \<open>viableCellsKilled\<close> counts a neighbor of
  generation above 2; on a denial with such a neighbor the actor loses
  \<open>energy div FAILED_KILL_PENALTY\<close>, and otherwise only the PRNG state advances.
\<close>

lemma op_KILL_effect:
  assumes "facing s \<le> 3"
    and "length (genome (pond s (getNeighbor (pptr s) (facing s)))) = unat POND_DEPTH_SYSWORDS"
    and "accessAllowed (pond s (getNeighbor (pptr s) (facing s))) (reg s) 0 (prngState s)
           = Some (ok, st)"
  shows "\<exists>s'. dispatch 0xd s = Some (False, s') \<and>
     (let self = pptr s; neighbor = getNeighbor (pptr s) (facing s) in
      if ok
      then take 2 (genome (pond s' neighbor)) = [NOT 0, NOT 0]
         \<and> drop 2 (genome (pond s' neighbor)) = drop 2 (genome (pond s neighbor))
         \<and> ID (pond s' neighbor) = cellIdCounter s
         \<and> cellIdCounter s' = cellIdCounter s + 1
         \<and> parentID (pond s' neighbor) = 0
         \<and> lineage (pond s' neighbor) = ID (pond s' neighbor)
         \<and> generation (pond s' neighbor) = 0
         \<and> energy (pond s' neighbor) = energy (pond s neighbor)
         \<and> viableCellsKilled s' = viableCellsKilled s
              + (if generation (pond s neighbor) > 2 then 1 else 0)
         \<and> (\<forall>p. p \<noteq> neighbor \<longrightarrow> pond s' p = pond s p)
      else if generation (pond s neighbor) > 2
      then s' = set_energy self (energy (pond s self) - energy (pond s self) div FAILED_KILL_PENALTY)
                  (s\<lparr>prngState := st\<rparr>)
      else s' = s\<lparr>prngState := st\<rparr>)"
proof -
  let ?p = "pptr s" and ?q = "getNeighbor (pptr s) (facing s)"
  let ?e = "energy (pond s ?p)"
  have l: "length (genome (pond s ?q)) = 64" using assms(2) by (simp add: PDS_unat)
  then obtain a b r where g: "genome (pond s ?q) = a # b # r"
    by (cases "genome (pond s ?q)"; cases "tl (genome (pond s ?q))") auto
  have z: "?e = 0" if "\<not> ?e div FAILED_KILL_PENALTY < ?e"
  proof (rule ccontr)
    assume "?e \<noteq> 0"
    then have "0 < unat ?e" by (simp add: unat_gt_0)
    then have "unat ?e div 3 < unat ?e" by simp
    then have "?e div FAILED_KILL_PENALTY < ?e"
      by (simp add: word_less_nat_alt unat_div pond_consts)
    with that show False by simp
  qed
  show ?thesis
    using assms(3) g z
    by (auto simp: dispatch_def op_KILL_def Let_def wr_def set_energy_def)
qed

definition collide_sim :: sim where
  "collide_sim = (init_sim 2)
     \<lparr>pond := (\<lambda>p. blank_cell)
         ((1, 1) := blank_cell\<lparr>ID := 5, parentID := 2, lineage := 2, generation := 3, energy := 10\<rparr>,
          (0, 1) := blank_cell\<lparr>ID := 6, parentID := 3, lineage := 3, generation := 4, energy := 3\<rparr>,
          (2, 1) := blank_cell\<lparr>ID := 4, parentID := 0, lineage := 4, generation := 0, energy := 9\<rparr>),
      cellIdCounter := 7,
      pptr := (1, 1),
      outputBuf := 0x15 # replicate 63 (NOT 0)\<rparr>"


lemma copy_words_64:
  "length src = 64 \<Longrightarrow> length dst = 64 \<Longrightarrow> copy_words 64 src dst = Some src"
  using copy_words_all[of src dst] by (simp add: PDS_unat)

text \<open>
  Claim C6. For every executed KILL codon whose gate grants, the neighbor's first two
  genome words become all ones and it gets a fresh id, parent id 0, lineage equal to that
  id, generation 0, unchanged energy, with \<open>viableCellsKilled\<close> incremented exactly
  when the neighbor had generation above 2; on a denial the actor pays the penalty when
  the neighbor has generation above 2 and nothing changes otherwise. The id is not always
  fresh: the offspring commit assigns \<^verbatim>\<open>++cellIdCounter\<close> and leaves the counter at
  the id it assigned, and KILL assigns the counter's current value. In \<open>collide_sim\<close>
  the cell at (1, 1) commits its offspring into (0, 1), which gets id 8; a KILL of (2, 1)
  that follows gives (2, 1) the id 8 as well.
\<close>

theorem kill_id_collision:
  "map_option (\<lambda>(c, s'). (ID (pond s' (0, 1)), ID (pond s' (2, 1)), cellIdCounter s'))
     (commit collide_sim \<bind> (\<lambda>s. dispatch 0xd (s\<lparr>facing := N_RIGHT\<rparr>)))
   = Some (8, 8, 9)"
  by (simp add: collide_sim_def init_sim_def blank_cell_def commit_def dispatch_def op_KILL_def
      accessAllowed_def getRandom_def rd_def wr_def BITS_IN_FOURBIT_WORD_def getNeighbor_def
      cell_upd_def set_genome_def copy_words_64 Let_def pond_consts)


lemma fill_random_total:
  "n \<le> length g \<Longrightarrow> length g < 2 ^ 64 \<Longrightarrow>
   \<exists>g' st'. fill_random n g st = Some (g', st') \<and> length g' = length g"
proof (induction n)
  case 0
  then show ?case by simp
next
  case (Suc n)
  then obtain g1 st1 where f: "fill_random n g st = Some (g1, st1)" "length g1 = length g"
    by auto
  have u: "unat (of_nat n :: 64 word) = n" using Suc.prems by (simp add: unat_of_nat_small)
  show ?case using f u Suc.prems by (simp add: wr_def split: prod.splits)
qed

definition seed_target :: "sim \<Rightarrow> cellptr" where
  "seed_target s =
     (let (rx, st1) = getRandom (prngState s); (ry, st2) = getRandom st1
      in (rx mod POND_SIZE_X, ry mod POND_SIZE_Y))"

lemma seed_effect:
  assumes "length (genome (pond s (seed_target s))) = unat POND_DEPTH_SYSWORDS"
  shows "\<exists>s'. seed s = Some s' \<and> ID (pond s' (seed_target s)) = cellIdCounter s
           \<and> cellIdCounter s' = cellIdCounter s + 1
           \<and> (\<forall>q. q \<noteq> seed_target s \<longrightarrow> pond s' q = pond s q)"
proof -
  obtain rx st1 where r1: "getRandom (prngState s) = (rx, st1)"
    by (cases "getRandom (prngState s)")
  obtain ry st2 where r2: "getRandom st1 = (ry, st2)" by (cases "getRandom st1")
  obtain rv st3 where r3: "getRandom st2 = (rv, st3)" by (cases "getRandom st2")
  have t: "seed_target s = (rx mod POND_SIZE_X, ry mod POND_SIZE_Y)"
    by (simp add: seed_target_def r1 r2)
  have l: "length (genome (pond s (rx mod POND_SIZE_X, ry mod POND_SIZE_Y))) = 64"
    using assms by (simp add: t PDS_unat)
  from fill_random_total[of 64 "genome (pond s (rx mod POND_SIZE_X, ry mod POND_SIZE_Y))" st3] l
  obtain g' st' where f: "fill_random 64 (genome (pond s (rx mod POND_SIZE_X, ry mod POND_SIZE_Y))) st3
      = Some (g', st')" by auto
  show ?thesis
    using f by (auto simp: seed_def t r1 r2 r3 cell_upd_def set_energy_def set_genome_def PDS_unat Let_def)
qed

text \<open>
  Claim C2. Cell ids are unique: no two id assignments (seeding, KILL, offspring commit)
  assign the same value. The code breaks this: seeding and KILL assign
  \<^verbatim>\<open>cellIdCounter\<close> and increment it afterwards, the offspring commit assigns
  \<^verbatim>\<open>++cellIdCounter\<close>, so the assignment that follows a commit repeats the
  offspring's id. In \<open>collide_sim\<close> the offspring at (0, 1) gets id 8 and the seeding
  that follows gives the cell at (443, 78) the id 8 too.
\<close>

theorem id_reused_after_offspring:
  "map_option (\<lambda>s'. (ID (pond s' (0, 1)), ID (pond s' (443, 78)), cellIdCounter s'))
     (commit collide_sim \<bind> seed) = Some (8, 8, 9)"
proof -
  define s1 where "s1 = the (commit collide_sim)"
  have c: "commit collide_sim = Some s1"
    unfolding s1_def
    by (simp add: collide_sim_def init_sim_def blank_cell_def commit_def
      accessAllowed_def getRandom_def rd_def BITS_IN_FOURBIT_WORD_def getNeighbor_def
      cell_upd_def set_genome_def copy_words_64 Let_def pond_consts)
  have f: "ID (pond s1 (0, 1)) = 8" "cellIdCounter s1 = 8" "prngState s1 = (2, 109052751)"
    "length (genome (pond s1 (443, 78))) = unat POND_DEPTH_SYSWORDS"
    unfolding s1_def
    by (simp_all add: collide_sim_def init_sim_def blank_cell_def commit_def
      accessAllowed_def getRandom_def rd_def BITS_IN_FOURBIT_WORD_def getNeighbor_def
      cell_upd_def set_genome_def copy_words_64 Let_def pond_consts)
  have t: "seed_target s1 = (443, 78)"
    by (simp add: seed_target_def f getRandom_def Let_def pond_consts)
  from seed_effect[of s1] obtain s2 where s2: "seed s1 = Some s2"
    "ID (pond s2 (443, 78)) = 8" "cellIdCounter s2 = 9" "pond s2 (0, 1) = pond s1 (0, 1)"
    unfolding t using f by auto
  show ?thesis using c s2 f by simp
qed

subsection \<open>Mutation and the stored genome\<close>

definition gmap :: "sim \<Rightarrow> cellptr \<Rightarrow> 64 word list" where
  "gmap s = (\<lambda>p. genome (pond s p))"

lemma op_simple_gmap:
  "op_ZERO s = Some s' \<Longrightarrow> gmap s' = gmap s"
  "op_FWD s = Some s' \<Longrightarrow> gmap s' = gmap s"
  "op_BACK s = Some s' \<Longrightarrow> gmap s' = gmap s"
  "op_INC s = Some s' \<Longrightarrow> gmap s' = gmap s"
  "op_DEC s = Some s' \<Longrightarrow> gmap s' = gmap s"
  "op_TURN s = Some s' \<Longrightarrow> gmap s' = gmap s"
  "op_STOP s = Some s' \<Longrightarrow> gmap s' = gmap s"
  by (auto simp: op_ZERO_def op_FWD_def op_BACK_def op_INC_def op_DEC_def op_TURN_def op_STOP_def
      Let_def gmap_def split: if_splits)

lemma op_READG_gmap: "op_READG s = Some s' \<Longrightarrow> gmap s' = gmap s"
  by (auto simp: op_READG_def gmap_def split: bind_splits)

lemma op_READB_gmap: "op_READB s = Some s' \<Longrightarrow> gmap s' = gmap s"
  by (auto simp: op_READB_def gmap_def split: bind_splits)

lemma op_WRITEB_gmap: "op_WRITEB s = Some s' \<Longrightarrow> gmap s' = gmap s"
  by (auto simp: op_WRITEB_def gmap_def split: bind_splits)

lemma op_LOOP_gmap: "op_LOOP s = Some s' \<Longrightarrow> gmap s' = gmap s"
  by (auto simp: op_LOOP_def gmap_def split: bind_splits if_splits)

lemma op_REP_gmap: "op_REP s = Some (c, s') \<Longrightarrow> gmap s' = gmap s"
  by (auto simp: op_REP_def gmap_def Let_def split: bind_splits if_splits)

lemma gmap_set_energy: "gmap (set_energy p e s) = gmap s"
  by (rule ext) (simp add: gmap_def set_energy_def)

lemma gmap_upd:
  "gmap (s\<lparr>prngState := st\<rparr>) = gmap s"
  "gmap (s\<lparr>viableCellShares := k\<rparr>) = gmap s"
  by (simp_all add: gmap_def)

lemma op_SHARE_gmap: "op_SHARE s = Some s' \<Longrightarrow> gmap s' = gmap s"
  by (auto simp: op_SHARE_def Let_def gmap_set_energy gmap_upd split: bind_splits if_splits)

lemma advance_gmap: "advance s = Some s' \<Longrightarrow> gmap s' = gmap s"
  by (auto simp: advance_def gmap_def Let_def split: prod.splits if_splits bind_splits)

lemma dispatch_gmap:
  assumes "dispatch inst s = Some (c, s')" and "inst \<noteq> 0x6" "inst \<noteq> 0xc" "inst \<noteq> 0xd"
  shows "gmap s' = gmap s"
  using assms unfolding dispatch_def
  by (auto split: if_splits dest: op_simple_gmap op_READG_gmap op_READB_gmap op_WRITEB_gmap
      op_LOOP_gmap op_REP_gmap op_SHARE_gmap)

lemma exec_inst_gmap:
  assumes "exec_inst inst s = Some s'"
    and "falseLoopDepth s \<noteq> 0 \<or> (inst \<noteq> 0x6 \<and> inst \<noteq> 0xc \<and> inst \<noteq> 0xd)"
  shows "gmap s' = gmap s"
proof (cases "falseLoopDepth s = 0")
  case False
  then obtain s1 where "advance s1 = Some s'" "gmap s1 = gmap s"
    using assms(1) by (auto simp: exec_inst_def gmap_def split: if_splits)
  then show ?thesis using advance_gmap by metis
next
  case True
  then obtain ie c s1 where d: "dispatch inst (s\<lparr>instructionExecutions := ie\<rparr>) = Some (c, s1)"
    and r: "s' = s1 \<or> advance s1 = Some s'"
    using assms(1) by (auto simp: exec_inst_def split: bind_splits if_splits)
  have "gmap s1 = gmap (s\<lparr>instructionExecutions := ie\<rparr>)"
    using d assms(2) True by (intro dispatch_gmap) auto
  then have "gmap s1 = gmap s" by (simp add: gmap_def)
  then show ?thesis using r advance_gmap by metis
qed

lemma mutate_cases:
  "(\<exists>st. snd (mutate inst s) = s\<lparr>prngState := st\<rparr>)
   \<or> (\<exists>st r. fst (mutate inst s) = inst \<and> snd (mutate inst s) = s\<lparr>prngState := st, reg := r\<rparr>)"
proof -
  obtain r st1 where g1: "getRandom (prngState s) = (r, st1)"
    by (cases "getRandom (prngState s)")
  obtain tmp st2 where g2: "getRandom st1 = (tmp, st2)" by (cases "getRandom st1")
  consider (none) "\<not> r AND 0xffffffff < MUTATION_RATE"
    | (codon) "r AND 0xffffffff < MUTATION_RATE" "tmp AND 0x80 \<noteq> 0"
    | (register) "r AND 0xffffffff < MUTATION_RATE" "tmp AND 0x80 = 0"
    by blast
  then show ?thesis
  proof cases
    case none
    then have "snd (mutate inst s) = s\<lparr>prngState := st1\<rparr>"
      by (simp add: mutate_def g1)
    then show ?thesis by blast
  next
    case codon
    then have "snd (mutate inst s) = s\<lparr>prngState := st2\<rparr>"
      by (simp add: mutate_def g1 g2)
    then show ?thesis by blast
  next
    case register
    then have "fst (mutate inst s) = inst"
      "snd (mutate inst s) = s\<lparr>prngState := st2, reg := tmp AND 0xf\<rparr>"
      by (simp_all add: mutate_def g1 g2)
    then show ?thesis by blast
  qed
qed

lemma mutate_pond: "pond (snd (mutate inst s)) = pond s"
  "falseLoopDepth (snd (mutate inst s)) = falseLoopDepth s"
  "currentWord (snd (mutate inst s)) = currentWord s"
  by (auto simp: mutate_def Let_def split: prod.splits)

text \<open>
  Claim C10. A mutation changes nothing but the PRNG state and either the instruction
  value used in this step or the register: the pond, and with it every stored genome, and
  the cached execution word are the same after \<open>mutate\<close>. A step changes a stored
  genome only when the instruction it executes, outside a false loop, is WRITEG (0x6),
  XCHG (0xc) or KILL (0xd); choosing a cell and resetting the machine leave the pond
  alone, which leaves seeding and the offspring commit as the other writers.
\<close>

theorem mutation_leaves_genome:
  "pond (snd (mutate inst s)) = pond s
   \<and> currentWord (snd (mutate inst s)) = currentWord s
   \<and> ((\<exists>st. snd (mutate inst s) = s\<lparr>prngState := st\<rparr>)
        \<or> (\<exists>st r. fst (mutate inst s) = inst
                   \<and> snd (mutate inst s) = s\<lparr>prngState := st, reg := r\<rparr>))
   \<and> (step s = Some s' \<and> fetch s = Some i0
        \<and> (falseLoopDepth s \<noteq> 0
            \<or> (fst (mutate i0 s) \<noteq> 0x6 \<and> fst (mutate i0 s) \<noteq> 0xc \<and> fst (mutate i0 s) \<noteq> 0xd))
        \<longrightarrow> (\<forall>p. genome (pond s' p) = genome (pond s p)))
   \<and> pond (snd (pick_cell s)) = pond s
   \<and> (reset_vm p0 s = Some s' \<longrightarrow> pond s' = pond s)"
proof -
  have st: "\<forall>p. genome (pond s' p) = genome (pond s p)"
    if a: "step s = Some s'" "fetch s = Some i0"
      and b: "falseLoopDepth s \<noteq> 0
            \<or> (fst (mutate i0 s) \<noteq> 0x6 \<and> fst (mutate i0 s) \<noteq> 0xc \<and> fst (mutate i0 s) \<noteq> 0xd)"
  proof -
    let ?s1 = "snd (mutate i0 s)"
    have e: "exec_inst (fst (mutate i0 s)) (dec_energy ?s1) = Some s'"
      using a by (simp add: step_def split: prod.splits)
    have f: "falseLoopDepth (dec_energy ?s1) = falseLoopDepth s"
      by (simp add: dec_energy_def set_energy_def mutate_pond)
    have "gmap s' = gmap (dec_energy ?s1)"
      using e b by (intro exec_inst_gmap) (auto simp: f)
    also have "\<dots> = gmap s"
      by (auto simp: gmap_def dec_energy_def set_energy_def mutate_pond)
    finally show ?thesis by (auto simp: gmap_def dest: fun_cong)
  qed
  have r: "pond s' = pond s" if "reset_vm p0 s = Some s'"
    using that by (auto simp: reset_vm_def Let_def split: bind_splits)
  have pk: "pond (snd (pick_cell s)) = pond s"
    by (simp add: pick_cell_def Let_def split: prod.splits)
  show ?thesis using st r pk mutate_cases[of inst s] mutate_pond[of inst s] by blast
qed


definition mut_sim :: sim where
  "mut_sim = (init_sim 0)
     \<lparr>prngState := (0x19000032000064, 0),
      pond := (\<lambda>p. blank_cell)
         ((1, 1) := blank_cell\<lparr>ID := 5, parentID := 2, lineage := 2, generation := 3, energy := 5,
                                genome := 0x0f # replicate 63 (NOT 0)\<rparr>),
      pptr := (1, 1),
      outputBuf := replicate 64 (NOT 0),
      currentWord := 0x0f,
      shiftPtr := 4\<rparr>"

lemma vm_inv_mut_sim: "vm_inv mut_sim"
  by (simp add: vm_inv_def arrays_ok_def stack_ok_def cursor_ok_unat mut_sim_def init_sim_def
      blank_cell_def blank_stack_def pond_consts)

theorem mutation_leaves_genome_witness:
  "fetch mut_sim = Some 0 \<and> fst (mutate 0 mut_sim) = 8 \<and> falseLoopDepth mut_sim = 0
   \<and> (\<exists>s'. step mut_sim = Some s' \<and> (\<forall>p. genome (pond s' p) = genome (pond mut_sim p)))"
proof -
  have f: "fetch mut_sim = Some 0"
    by (simp add: fetch_def get_codon_def shr_def mut_sim_def init_sim_def)
  have m: "fst (mutate 0 mut_sim) = 8"
    by (simp add: mutate_def getRandom_def mut_sim_def init_sim_def Let_def pond_consts)
  have d: "falseLoopDepth mut_sim = 0" by (simp add: mut_sim_def init_sim_def)
  from step_inv[OF vm_inv_mut_sim] obtain s' where s: "step mut_sim = Some s'" by blast
  from mutation_leaves_genome[of 0 mut_sim s' 0 "(1, 1)"] s f m
  have "\<forall>p. genome (pond s' p) = genome (pond mut_sim p)" by simp
  with f m d s show ?thesis by blast
qed

subsection \<open>LOOP on a full loop stack\<close>

lemma next_cursor_neq: "next_cursor c \<noteq> c"
proof -
  obtain w sh where c: "c = (w, sh)" by (cases c)
  have "sh + 4 \<noteq> sh" by simp
  moreover have "w + 1 \<noteq> w" by simp
  moreover have "\<not> (sh = 4 \<and> (64 :: 64 word) \<le> sh + 4)" by auto
  ultimately show ?thesis
    unfolding c next_cursor_def Let_def by (auto simp: pond_consts)
qed

lemma advance_cursor:
  assumes "vm_inv s"
  shows "\<exists>s'. advance s = Some s' \<and> (wordPtr s', shiftPtr s') = next_cursor (wordPtr s, shiftPtr s)
           \<and> stop s' = stop s \<and> pond s' = pond s \<and> pptr s' = pptr s"
proof -
  obtain wp sp where n: "next_cursor (wordPtr s, shiftPtr s) = (wp, sp)" by fastforce
  have e: "cursor_ok wp sp"
    using assms next_cursor_ok[of "wordPtr s" "shiftPtr s"] n by (simp add: vm_inv_def)
  have l: "length (genome (pond s (pptr s))) = 64" using assms by (rule genome_len)
  show ?thesis
    using cursor_okD[OF e] l n by (simp add: advance_def rd_ok Let_def)
qed

lemma mutate_frame:
  "wordPtr (snd (mutate i s)) = wordPtr s" "shiftPtr (snd (mutate i s)) = shiftPtr s"
  "loopStackPtr (snd (mutate i s)) = loopStackPtr s" "stop (snd (mutate i s)) = stop s"
  "instructionExecutions (snd (mutate i s)) = instructionExecutions s"
  by (auto simp: mutate_def Let_def split: prod.splits)

text \<open>
  Claim C3, as the code has it. When a LOOP codon is executed with a nonzero register
  and the loop stack is full (depth at least \<open>POND_DEPTH\<close>), the step sets
  \<open>stop\<close>, and, as after every instruction but a REP that jumps back, the cursor
  advance at the end of the iteration still runs: the loop ends with the execution cursor
  on the codon that follows the LOOP (at word 0, bit 4 after the last codon of the
  genome), not on the LOOP codon.
\<close>

theorem loop_overflow_stops_past_loop:
  assumes "vm_inv s" and "falseLoopDepth s = 0" and "fetch s = Some i0"
    and "fst (mutate i0 s) = 0x9" and "reg (snd (mutate i0 s)) \<noteq> 0"
    and "POND_DEPTH \<le> loopStackPtr s"
  shows "\<exists>s'. step s = Some s' \<and> stop s'
           \<and> (wordPtr s', shiftPtr s') = next_cursor (wordPtr s, shiftPtr s)
           \<and> (wordPtr s', shiftPtr s') \<noteq> (wordPtr s, shiftPtr s)
           \<and> cell_exec n s' = Some (n, s')"
proof -
  let ?s1 = "snd (mutate i0 s)"
  let ?s2 = "dec_energy ?s1"
  have i: "i0 \<le> 15"
    using assms(3) by (auto simp: fetch_def get_codon_def word_and_le1 split: bind_splits)
  have v2: "vm_inv ?s2" using assms(1) i by (intro dec_energy_inv) (simp add: mutate_inv)
  have st: "step s = exec_inst 0x9 ?s2"
    using assms(3,4) by (cases "mutate i0 s") (simp add: step_def)
  have len: "length (instructionExecutions ?s2) = 16"
    using v2 by (simp add: vm_inv_def arrays_ok_def)
  let ?s3 = "?s2\<lparr>instructionExecutions :=
               (instructionExecutions ?s2)[9 := dbl_succ (instructionExecutions ?s2 ! 9)]\<rparr>"
  have v3: "vm_inv (?s3\<lparr>stop := True\<rparr>)" using v2 by (rule vm_inv_frame) simp_all
  have f2: "falseLoopDepth ?s2 = 0" "reg ?s2 \<noteq> 0" "POND_DEPTH \<le> loopStackPtr ?s2"
    "wordPtr ?s2 = wordPtr s" "shiftPtr ?s2 = shiftPtr s"
    using assms(2,5,6) by (simp_all add: dec_energy_def set_energy_def mutate_pond mutate_frame)
  have d: "dispatch 0x9 ?s3 = Some (False, ?s3\<lparr>stop := True\<rparr>)"
    using f2 by (simp add: dispatch_def op_LOOP_def)
  have ex: "exec_inst 0x9 ?s2 = advance (?s3\<lparr>stop := True\<rparr>)"
    using f2(1) len d by (simp add: exec_inst_def rd_def wr_def)
  from advance_cursor[OF v3] obtain s' where s': "advance (?s3\<lparr>stop := True\<rparr>) = Some s'"
    "(wordPtr s', shiftPtr s') = next_cursor (wordPtr s, shiftPtr s)" "stop s'"
    using f2 by auto
  have "cell_exec n s' = Some (n, s')" using s'(3) by (subst cell_exec.simps) simp
  then show ?thesis using st ex s' next_cursor_neq[of "(wordPtr s, shiftPtr s)"] by auto
qed


text \<open>
  A state with a full loop stack: that of the cell at (1, 1), whose genome is INC followed
  by LOOP codons only, 1026 iterations after \<open>reset_vm\<close> in a pond that is otherwise
  as \<open>init_sim 1804289383\<close> with energy 2000 for the cell. The register is 2, the
  stack holds the cursors of the codons 2 to 1023 of the first pass and 2 and 3 of the
  second, and the cursor is on the LOOP at word 0, bit 16.
\<close>

definition full_stack :: "nat list" where
  "full_stack = [2..<1024] @ [2, 3]"

definition overflow_sim :: sim where
  "overflow_sim = (init_sim 1804289383)
     \<lparr>prngState := (9584942397350029500, 2682569471024117494),
      pond := (\<lambda>p. blank_cell)
         ((1, 1) := blank_cell\<lparr>ID := 5, parentID := 2, lineage := 2, generation := 3, energy := 974,
                                genome := 0x999999999999993f # replicate 63 0x9999999999999999\<rparr>),
      instructionExecutions := [0, 0, 0, 2, 0, 0, 0, 0, 0, 1024, 0, 0, 0, 0, 0, 0],
      cellExecutions := 1,
      pptr := (1, 1),
      outputBuf := replicate 64 (NOT 0),
      currentWord := 0x999999999999993f,
      wordPtr := 0, shiftPtr := 16, reg := 2,
      loopStack_wordPtr := map (\<lambda>k. of_nat (k div 16)) full_stack,
      loopStack_shiftPtr := map (\<lambda>k. of_nat (4 * (k mod 16))) full_stack,
      loopStackPtr := 1024\<rparr>"

lemma full_stack_props: "length full_stack = 1024" "\<forall>k \<in> set full_stack. k < 1024"
proof -
  show "length full_stack = 1024"
    unfolding full_stack_def by (simp only: length_append length_upt) simp
  have "set full_stack = {2..<1024} \<union> {2, 3}"
    unfolding full_stack_def by (simp only: set_append set_upt) simp
  then show "\<forall>k \<in> set full_stack. k < 1024" by auto
qed

lemma vm_inv_overflow_sim: "vm_inv overflow_sim"
proof -
  have c: "cursor_ok (map (\<lambda>k. of_nat (k div 16)) full_stack ! i)
                     (map (\<lambda>k. of_nat (4 * (k mod 16))) full_stack ! i)" if "i < 1024" for i
  proof -
    have k: "full_stack ! i < 1024" using that full_stack_props by (metis nth_mem)
    have a: "unat (of_nat (full_stack ! i div 16) :: 64 word) = full_stack ! i div 16"
      using k by (intro unat_of_nat_small) simp
    have b: "unat (of_nat (4 * (full_stack ! i mod 16)) :: 64 word) = 4 * (full_stack ! i mod 16)"
      by (intro unat_of_nat_small) simp
    have "full_stack ! i div 16 < 64" using k by simp
    moreover have "4 * (full_stack ! i mod 16) < 64" by simp
    ultimately show ?thesis
      using that a b by (simp add: full_stack_props cursor_ok_unat del: of_nat_mult of_nat_div)
  qed
  show ?thesis
    using c
    by (simp add: vm_inv_def arrays_ok_def stack_ok_def cursor_ok_unat overflow_sim_def init_sim_def
        blank_cell_def full_stack_props pond_consts)
qed

lemma overflow_sim_fetch:
  "fetch overflow_sim = Some 0x9" "fst (mutate 0x9 overflow_sim) = 0x9"
  "reg (snd (mutate 0x9 overflow_sim)) = 2" "falseLoopDepth overflow_sim = 0"
  "loopStackPtr overflow_sim = POND_DEPTH" "wordPtr overflow_sim = 0" "shiftPtr overflow_sim = 16"
  by (simp_all add: fetch_def get_codon_def shr_def mutate_def getRandom_def overflow_sim_def
      init_sim_def Let_def pond_consts)

text \<open>
  Claim C3 as stated fails there: the LOOP at word 0, bit 16 finds the stack full, the
  loop ends after this one step with \<open>stop\<close> set, and the cursor is at bit 20.
\<close>

theorem loop_overflow_counterexample:
  "fetch overflow_sim = Some 0x9 \<and> fst (mutate 0x9 overflow_sim) = 0x9
   \<and> reg (snd (mutate 0x9 overflow_sim)) = 2 \<and> falseLoopDepth overflow_sim = 0
   \<and> loopStackPtr overflow_sim = POND_DEPTH
   \<and> (wordPtr overflow_sim, shiftPtr overflow_sim) = (0, 16)
   \<and> map_option (\<lambda>(n, s'). (n, stop s', wordPtr s', shiftPtr s')) (cell_exec 0 overflow_sim)
       = Some (1, True, 0, 20)"
proof -
  define s1 where "s1 = the (step overflow_sim)"
  have st: "step overflow_sim = Some s1" "stop s1" "wordPtr s1 = 0" "shiftPtr s1 = 20"
    unfolding s1_def
    by (simp_all add: step_def fetch_def get_codon_def shr_def mutate_def getRandom_def
        dec_energy_def set_energy_def exec_inst_def rd_def wr_def dispatch_def op_LOOP_def
        advance_def next_cursor_def overflow_sim_def init_sim_def blank_cell_def Let_def pond_consts)
  have e: "energy (pond overflow_sim (pptr overflow_sim)) \<noteq> 0" "\<not> stop overflow_sim"
    by (simp_all add: overflow_sim_def init_sim_def blank_cell_def)
  have "cell_exec 0 overflow_sim = cell_exec 1 s1"
    using e st(1) by (subst cell_exec.simps) simp
  also have "\<dots> = Some (1, s1)" using st(2) by (subst cell_exec.simps) simp
  finally show ?thesis using st overflow_sim_fetch by simp
qed

theorem loop_overflow_stops_past_loop_witness:
  "vm_inv overflow_sim \<and> falseLoopDepth overflow_sim = 0 \<and> fetch overflow_sim = Some 0x9
   \<and> fst (mutate 0x9 overflow_sim) = 0x9 \<and> reg (snd (mutate 0x9 overflow_sim)) \<noteq> 0
   \<and> POND_DEPTH \<le> loopStackPtr overflow_sim
   \<and> (\<exists>s'. step overflow_sim = Some s' \<and> stop s' \<and> (wordPtr s', shiftPtr s') = (0, 20)
           \<and> cell_exec 7 s' = Some (7, s'))"
proof -
  have r: "reg (snd (mutate 0x9 overflow_sim)) \<noteq> 0" by (simp add: overflow_sim_fetch)
  have l: "POND_DEPTH \<le> loopStackPtr overflow_sim" by (simp add: overflow_sim_fetch)
  have n: "next_cursor (wordPtr overflow_sim, shiftPtr overflow_sim) = (0, 20)"
    by (simp add: overflow_sim_fetch next_cursor_def pond_consts)
  from loop_overflow_stops_past_loop[OF vm_inv_overflow_sim overflow_sim_fetch(4)
      overflow_sim_fetch(1) overflow_sim_fetch(2) r l, of 7]
  show ?thesis
    unfolding n using vm_inv_overflow_sim overflow_sim_fetch r l by auto
qed

subsection \<open>A cell with one unit of energy\<close>















section \<open>The fields of a report row\<close>

lemma digit_not_comma: "d < 10 \<Longrightarrow> digit_char d \<noteq> CHR '',''"
proof
  assume d: "d < 10" and "digit_char d = CHR '',''"
  then have "(of_char (digit_char d) :: nat) = of_char CHR '',''" by simp
  then show False using d by (simp add: digit_char_def)
qed

lemma show_nat_unfold:
  "n < 10 \<Longrightarrow> show_nat n = [digit_char n]"
  "\<not> n < 10 \<Longrightarrow> show_nat n = show_nat (n div 10) @ [digit_char (n mod 10)]"
  by (subst show_nat.simps, simp)+

lemma show_nat_no_comma: "CHR '','' \<notin> set (show_nat n)"
proof (induction n rule: show_nat.induct)
  case (1 n)
  show ?case
  proof (cases "n < 10")
    case True
    then show ?thesis using digit_not_comma[of n] by (auto simp: show_nat_unfold)
  next
    case False
    then show ?thesis using 1 digit_not_comma[of "n mod 10"] by (auto simp: show_nat_unfold)
  qed
qed

lemma fmt_u64_no_comma: "CHR '','' \<notin> set (fmt_u64 w)"
  by (simp add: fmt_u64_def show_nat_no_comma)

lemma fmt_freq_no_comma:
  "\<forall>a b. CHR '','' \<notin> set (fmt a b) \<Longrightarrow> CHR '','' \<notin> set (fmt_freq fmt a ce)"
  by (simp add: fmt_freq_def)

lemma split_on_nonempty: "split_on c xs \<noteq> []"
  by (induction xs) (auto split: list.splits)

lemma split_on_append:
  "c \<notin> set f \<Longrightarrow> split_on c (f @ ys) = (f @ hd (split_on c ys)) # tl (split_on c ys)"
  using split_on_nonempty[of c ys] by (induction f) (auto split: list.splits)

lemma split_on_sep: "split_on c (c # xs) = [] # split_on c xs"
  by simp

lemma split_on_plain: "c \<notin> set f \<Longrightarrow> split_on c f = [f]"
  using split_on_append[of c f "[]"] by simp

lemma split_on_columns:
  assumes "\<forall>a. c \<notin> set (g a)" and "c \<notin> set m"
  shows "split_on c (concat (map (\<lambda>a. c # g a) xs) @ c # m) = [] # map g xs @ [m]"
proof (induction xs)
  case Nil
  show ?case using assms(2) by (simp add: split_on_plain)
next
  case (Cons x xs)
  show ?case using assms(1) Cons by (simp add: split_on_append)
qed

text \<open>The double sum of the counters, in the order of the loop.\<close>

definition dbl_sum :: "int list \<Rightarrow> int" where
  "dbl_sum xs = foldl (\<lambda>t x. dbl_round (t + x)) 0 xs"

lemma dbl_round_exact: "x < 2 ^ 53 \<Longrightarrow> dbl_round x = x"
  by (simp add: dbl_round_def dbl_exp.simps)

lemma dbl_sum_exact_aux:
  "\<forall>x\<in>set xs. 0 \<le> x \<Longrightarrow> t + sum_list xs < 2 ^ 53 \<Longrightarrow>
   foldl (\<lambda>t x. dbl_round (t + x)) t xs = t + sum_list xs"
proof (induction xs arbitrary: t)
  case Nil
  show ?case by simp
next
  case (Cons x xs)
  have "0 \<le> sum_list xs" using Cons.prems(1) by (simp add: sum_list_nonneg)
  then have "t + x < 2 ^ 53" using Cons.prems(2) by simp
  then have "dbl_round (t + x) = t + x" by (rule dbl_round_exact)
  then show ?case using Cons by (simp add: add.assoc)
qed

lemma dbl_sum_exact:
  "\<forall>x\<in>set xs. 0 \<le> x \<Longrightarrow> sum_list xs < 2 ^ 53 \<Longrightarrow> dbl_sum xs = sum_list xs"
  using dbl_sum_exact_aux[of xs 0] by (simp add: dbl_sum_def)

lemma freq_loop_take:
  "n \<le> length ie \<Longrightarrow> length ie = 16 \<Longrightarrow>
   freq_loop fmt ie ce n
   = Some (dbl_sum (take n ie), concat (map (\<lambda>a. CHR '','' # fmt_freq fmt a ce) (take n ie)))"
proof (induction n)
  case 0
  show ?case by (simp add: dbl_sum_def)
next
  case (Suc n)
  then have n: "n < length ie" "n < 16" by simp_all
  have u: "unat (of_nat n :: 64 word) = n" using n(2) by (simp add: unat_of_nat)
  have r: "rd ie (of_nat n) = Some (ie ! n)" using n(1) by (simp add: rd_def u)
  show ?case using Suc n(1) by (simp add: r take_Suc_conv_app_nth dbl_sum_def)
qed

text \<open>
  The 25 columns that the comments of \<^verbatim>\<open>doReport\<close> list: the clock, the four results of
  the scan, the three counters of events, the 16 frequencies and the metabolism.
\<close>

definition report_fields :: "(int \<Rightarrow> int \<Rightarrow> string) \<Rightarrow> 64 word \<Rightarrow> sim \<Rightarrow> string list" where
  "report_fields fmt clock s =
     (let (totalActiveCells, totalEnergy, totalViableReplicators, maxGeneration) = scan_pond s in
      map fmt_u64 [clock, totalEnergy, totalActiveCells, totalViableReplicators, maxGeneration,
                   viableCellsReplaced s, viableCellsKilled s, viableCellShares s]
      @ map (\<lambda>a. fmt_freq fmt a (cellExecutions s)) (instructionExecutions s)
      @ [fmt_freq fmt (dbl_sum (instructionExecutions s)) (cellExecutions s)])"

text \<open>
  Claim C1, as the code has it. The first \<^verbatim>\<open>printf\<close> ends its eight numbers with a
  comma and each of the 16 that follow starts with one, so that the row written by
  \<open>doReport\<close> has 26 fields, not 25: the 25 columns in the order of the claim (each
  frequency \<open>0.0000\<close> when \<open>cellExecutions\<close> is 0, the metabolism under the same guard),
  with an empty field between the eighth and the first frequency. The text that
  \<^verbatim>\<open>%.4f\<close> makes of a quotient is a parameter, of which only that it has no comma is
  used.
\<close>

theorem report_row_fields:
  assumes "length (instructionExecutions s) = 16" and "\<forall>a b. CHR '','' \<notin> set (fmt a b)"
  shows "\<exists>row. doReport fmt clock s = Some (row @ [CHR 0x0A])
           \<and> split_on CHR '','' row
               = take 8 (report_fields fmt clock s) @ [[]] @ drop 8 (report_fields fmt clock s)
           \<and> length (report_fields fmt clock s) = 25
           \<and> length (split_on CHR '','' row) = 26
           \<and> split_on CHR '','' row ! 8 = []"
proof -
  obtain a e v m where sc: "scan_pond s = (a, e, v, m)" by (cases "scan_pond s") auto
  let ?ie = "instructionExecutions s"
  let ?ce = "cellExecutions s"
  let ?M = "fmt_freq fmt (dbl_sum ?ie) ?ce"
  let ?cols = "concat (map (\<lambda>a. CHR '','' # fmt_freq fmt a ?ce) ?ie) @ CHR '','' # ?M"
  let ?row = "fmt_u64 clock @ CHR '','' # fmt_u64 e @ CHR '','' # fmt_u64 a @ CHR '',''
      # fmt_u64 v @ CHR '','' # fmt_u64 m @ CHR '','' # fmt_u64 (viableCellsReplaced s) @ CHR '',''
      # fmt_u64 (viableCellsKilled s) @ CHR '','' # fmt_u64 (viableCellShares s) @ CHR '','' # ?cols"
  have fl: "freq_loop fmt ?ie ?ce 16
            = Some (dbl_sum ?ie, concat (map (\<lambda>a. CHR '','' # fmt_freq fmt a ?ce) ?ie))"
    using freq_loop_take[of 16 ?ie fmt ?ce] assms(1) by simp
  have d: "doReport fmt clock s = Some (?row @ [CHR 0x0A])"
    by (simp add: doReport_def sc fl)
  have c: "split_on CHR '','' ?cols = [] # map (\<lambda>a. fmt_freq fmt a ?ce) ?ie @ [?M]"
    using assms(2) by (intro split_on_columns) (simp_all add: fmt_freq_no_comma)
  have f: "report_fields fmt clock s
           = [fmt_u64 clock, fmt_u64 e, fmt_u64 a, fmt_u64 v, fmt_u64 m,
              fmt_u64 (viableCellsReplaced s), fmt_u64 (viableCellsKilled s),
              fmt_u64 (viableCellShares s)]
             @ map (\<lambda>a. fmt_freq fmt a ?ce) ?ie @ [?M]"
    by (simp add: report_fields_def sc)
  have s: "split_on CHR '','' ?row
           = [fmt_u64 clock, fmt_u64 e, fmt_u64 a, fmt_u64 v, fmt_u64 m,
              fmt_u64 (viableCellsReplaced s), fmt_u64 (viableCellsKilled s),
              fmt_u64 (viableCellShares s)]
             @ [] # map (\<lambda>a. fmt_freq fmt a ?ce) ?ie @ [?M]"
    by (simp add: split_on_append split_on_sep fmt_u64_no_comma c del: split_on.simps)
  have "split_on CHR '','' ?row
        = take 8 (report_fields fmt clock s) @ [[]] @ drop 8 (report_fields fmt clock s)"
    by (simp only: s f) simp
  moreover have "length (report_fields fmt clock s) = 25" using assms(1) by (simp add: f)
  moreover have "length (split_on CHR '','' ?row) = 26" using assms(1) by (simp add: s)
  moreover have "split_on CHR '','' ?row ! 8 = []" by (simp add: s)
  ultimately show ?thesis using d by blast
qed

text \<open>
  A formatter for the instances below: the decimal expansion of \<open>a / b\<close> rounded to four
  places. It is the text of \<^verbatim>\<open>%.4f\<close> when the quotient has at most four decimals.
\<close>

definition fixed4 :: "int \<Rightarrow> int \<Rightarrow> string" where
  "fixed4 a b =
     (let t = nat ((2 * a * 10000 + b) div (2 * b)) in
      show_nat (t div 10000) @ ''.''
      @ [digit_char (t div 1000 mod 10), digit_char (t div 100 mod 10),
         digit_char (t div 10 mod 10), digit_char (t mod 10)])"

lemma fixed4_no_comma: "CHR '','' \<notin> set (fixed4 a b)"
  using digit_not_comma[of "nat ((2 * a * 10000 + b) div (2 * b)) div 1000 mod 10"]
    digit_not_comma[of "nat ((2 * a * 10000 + b) div (2 * b)) div 100 mod 10"]
    digit_not_comma[of "nat ((2 * a * 10000 + b) div (2 * b)) div 10 mod 10"]
    digit_not_comma[of "nat ((2 * a * 10000 + b) div (2 * b)) mod 10"]
  by (auto simp: fixed4_def Let_def show_nat_no_comma)

lemma scan_dead:
  "\<forall>p\<in>set xs. energy (pond s p) = 0 \<Longrightarrow> fold (\<lambda>p. scan_cell (pond s p)) xs acc = acc"
  by (induction xs arbitrary: acc) (auto simp: scan_cell_def split: prod.splits)

lemma word_of_nat_neq0: "0 < n \<Longrightarrow> n < 2 ^ 64 \<Longrightarrow> (of_nat n :: 64 word) \<noteq> 0"
  using unat_of_nat_small[of n] by auto

lemma scan_first:
  assumes "\<forall>p. p \<noteq> (0, 0) \<longrightarrow> energy (pond s p) = 0"
  shows "scan_pond s = scan_cell (pond s (0, 0)) (0, 0, 0, 0)"
proof -
  let ?row = "\<lambda>x. map (\<lambda>y. (of_nat x :: 64 word, of_nat y :: 64 word)) [0..<600]"
  have x: "[0..<800] = 0 # [Suc 0..<800]" by (rule upt_conv_Cons) simp
  have y: "[0..<600] = 0 # [Suc 0..<600]" by (rule upt_conv_Cons) simp
  have u: "unat POND_SIZE_X = 800" "unat POND_SIZE_Y = 600" by (simp_all add: pond_consts)
  have "pond_cells = concat (map ?row (0 # [Suc 0..<800]))"
    unfolding pond_cells_def u by (subst x) (rule refl)
  also have "\<dots> = ?row 0 @ concat (map ?row [Suc 0..<800])" by (simp del: upt_Suc)
  also have "?row 0 = (0, 0) # map (\<lambda>y. (0, of_nat y)) [Suc 0..<600]"
    by (subst y) (simp del: upt_Suc)
  finally have pc: "pond_cells = (0, 0) # map (\<lambda>y. (0, of_nat y)) [Suc 0..<600]
                          @ concat (map ?row [Suc 0..<800])"
    by simp
  have d1: "\<forall>p\<in>set (map (\<lambda>y. (0 :: 64 word, of_nat y :: 64 word)) [Suc 0..<600]).
              energy (pond s p) = 0"
    using assms word_of_nat_neq0 by auto
  have d2: "\<forall>p\<in>set (concat (map ?row [Suc 0..<800])). energy (pond s p) = 0"
    using assms word_of_nat_neq0 by auto
  show ?thesis
    by (simp add: scan_pond_def pc scan_dead[OF d1] scan_dead[OF d2] del: upt_Suc)
qed

text \<open>
  A state at the time of a report: one living cell, four cells executed since the last
  report, 11 instructions executed.
\<close>

definition report_sim :: sim where
  "report_sim = (init_sim 1804289383)
     \<lparr>pond := (\<lambda>p. blank_cell)
         ((0, 0) := blank_cell\<lparr>ID := 5, parentID := 2, lineage := 2, generation := 3,
                                energy := 92\<rparr>),
      instructionExecutions := [0, 2, 0, 1, 3, 1, 0, 0, 1, 1, 1, 0, 0, 0, 0, 1],
      cellExecutions := 4, viableCellsReplaced := 1, viableCellShares := 2\<rparr>"

lemma scan_report_sim: "scan_pond report_sim = (1, 92, 1, 3)"
proof -
  have "\<forall>p. p \<noteq> (0, 0) \<longrightarrow> energy (pond report_sim p) = 0"
    by (simp add: report_sim_def init_sim_def blank_cell_def)
  from scan_first[OF this] show ?thesis
    by (simp add: scan_cell_def report_sim_def init_sim_def blank_cell_def)
qed

lemma report_sim_fields:
  "report_fields fixed4 200000 report_sim
   = [''200000'', ''92'', ''1'', ''1'', ''3'', ''1'', ''0'', ''2'',
      ''0.0000'', ''0.5000'', ''0.0000'', ''0.2500'', ''0.7500'', ''0.2500'', ''0.0000'',
      ''0.0000'', ''0.2500'', ''0.2500'', ''0.2500'', ''0.0000'', ''0.0000'', ''0.0000'',
      ''0.0000'', ''0.2500'', ''2.7500'']"
  unfolding report_fields_def scan_report_sim
  by (simp add: fmt_u64_def show_nat.simps fmt_freq_def fixed4_def digit_char_def char_of_def
      bit_Suc_0_iff
      dbl_sum_def dbl_round_def dbl_exp.simps Let_def report_sim_def init_sim_def)

theorem report_row_fields_witness:
  "length (instructionExecutions report_sim) = 16 \<and> cellExecutions report_sim = 4
   \<and> (\<exists>row. doReport fixed4 200000 report_sim = Some (row @ [CHR 0x0A])
         \<and> split_on CHR '','' row
             = [''200000'', ''92'', ''1'', ''1'', ''3'', ''1'', ''0'', ''2'', [],
                ''0.0000'', ''0.5000'', ''0.0000'', ''0.2500'', ''0.7500'', ''0.2500'', ''0.0000'',
                ''0.0000'', ''0.2500'', ''0.2500'', ''0.2500'', ''0.0000'', ''0.0000'', ''0.0000'',
                ''0.0000'', ''0.2500'', ''2.7500'']
         \<and> row = ''200000,92,1,1,3,1,0,2,,0.0000,0.5000,0.0000,0.2500,0.7500,0.2500,0.0000,''
                 @ ''0.0000,0.2500,0.2500,0.2500,0.0000,0.0000,0.0000,0.0000,0.2500,2.7500'')"
proof -
  have l: "length (instructionExecutions report_sim) = 16" "cellExecutions report_sim = 4"
    by (simp_all add: report_sim_def init_sim_def)
  from report_row_fields[of report_sim fixed4 200000] l(1) fixed4_no_comma
  obtain row where d: "doReport fixed4 200000 report_sim = Some (row @ [CHR 0x0A])"
    and sp: "split_on CHR '','' row
             = take 8 (report_fields fixed4 200000 report_sim) @ [[]]
               @ drop 8 (report_fields fixed4 200000 report_sim)"
    by blast
  have fl: "freq_loop fixed4 (instructionExecutions report_sim) (cellExecutions report_sim) 16
            = Some (dbl_sum (instructionExecutions report_sim),
                    concat (map (\<lambda>a. CHR '','' # fmt_freq fixed4 a (cellExecutions report_sim))
                              (instructionExecutions report_sim)))"
    using freq_loop_take[of 16 "instructionExecutions report_sim" fixed4] l(1) by simp
  have "doReport fixed4 200000 report_sim
        = Some ((''200000,92,1,1,3,1,0,2,,0.0000,0.5000,0.0000,0.2500,0.7500,0.2500,0.0000,''
                 @ ''0.0000,0.2500,0.2500,0.2500,0.0000,0.0000,0.0000,0.0000,0.2500,2.7500'')
                @ [CHR 0x0A])"
    unfolding doReport_def scan_report_sim fl
    by (simp add: fmt_u64_def show_nat.simps fmt_freq_def fixed4_def digit_char_def char_of_def
        bit_Suc_0_iff dbl_sum_def dbl_round_def dbl_exp.simps Let_def report_sim_def init_sim_def)
  with d have r: "row = ''200000,92,1,1,3,1,0,2,,0.0000,0.5000,0.0000,0.2500,0.7500,0.2500,0.0000,''
                 @ ''0.0000,0.2500,0.2500,0.2500,0.0000,0.0000,0.0000,0.0000,0.2500,2.7500''"
    by simp
  have "split_on CHR '','' row
             = [''200000'', ''92'', ''1'', ''1'', ''3'', ''1'', ''0'', ''2'', [],
                ''0.0000'', ''0.5000'', ''0.0000'', ''0.2500'', ''0.7500'', ''0.2500'', ''0.0000'',
                ''0.0000'', ''0.2500'', ''0.2500'', ''0.2500'', ''0.0000'', ''0.0000'', ''0.0000'',
                ''0.0000'', ''0.2500'', ''2.7500'']"
    unfolding sp report_sim_fields by simp
  with l d r show ?thesis by blast
qed

end
